theory Spec2Isabelle
  imports Main "HOL-Library.Word" "HOL-Library.Char_ord" "HOL-Library.List_Lexorder"
begin

section \<open>Regular expressions as the issue-page utilities use them\<close>

text \<open>
  The URL utilities in \<^verbatim>\<open>entrypoints/utils/{linear,jira,plane}.ts\<close> decide everything
  with JavaScript regular-expression literals. Every literal used there starts with
  \<^verbatim>\<open>^\<close>, has no \<^verbatim>\<open>$\<close> and no flags, and is built from literal text, the
  classes \<^verbatim>\<open>[^/]\<close>, \<^verbatim>\<open>[A-Z]\<close>, \<^verbatim>\<open>\d\<close> and \<^verbatim>\<open>.\<close> under \<^verbatim>\<open>+\<close>,
  capture groups and one optional non-capturing group. The datatype below has exactly
  these constructs, and \<open>run\<close> is the backtracking matcher of ECMAScript on them:
  it lists, in the order in which the engine tries them, every way to match at the
  start of the input, each with its captures and the input left over. The engine
  takes the first.
\<close>

datatype rx =
    Lit string
  | Plus "char \<Rightarrow> bool"
  | Seq rx rx
  | Cap rx
  | Opt rx

text \<open>\<^verbatim>\<open>X+\<close> is greedy: after one \<open>X\<close> the engine first tries to go on, then to stop.\<close>

fun plus_rests :: "(char \<Rightarrow> bool) \<Rightarrow> string \<Rightarrow> string list" where
  "plus_rests p [] = []"
| "plus_rests p (c # cs) = (if p c then plus_rests p cs @ [cs] else [])"

fun ngroups :: "rx \<Rightarrow> nat" where
  "ngroups (Lit w) = 0"
| "ngroups (Plus p) = 0"
| "ngroups (Seq a b) = ngroups a + ngroups b"
| "ngroups (Cap r) = Suc (ngroups r)"
| "ngroups (Opt r) = ngroups r"

text \<open>
  A capture group that did not take part in the match is \<^verbatim>\<open>undefined\<close> in JavaScript:
  \<open>None\<close> here. \<^verbatim>\<open>(...)?\<close> is greedy too: the group first, the empty match second.
\<close>

fun run :: "rx \<Rightarrow> string \<Rightarrow> (string option list \<times> string) list" where
  "run (Lit w) s = (if take (length w) s = w then [([], drop (length w) s)] else [])"
| "run (Plus p) s = map (\<lambda>r. ([], r)) (plus_rests p s)"
| "run (Seq a b) s =
     concat (map (\<lambda>(ca, ra). map (\<lambda>(cb, rb). (ca @ cb, rb)) (run b ra)) (run a s))"
| "run (Cap r) s =
     map (\<lambda>(c, rest). (Some (take (length s - length rest) s) # c, rest)) (run r s)"
| "run (Opt r) s = run r s @ [(replicate (ngroups r) None, s)]"

text \<open>\<^verbatim>\<open>re.test(s)\<close> and the capture groups of \<^verbatim>\<open>s.match(re)\<close>, for \<^verbatim>\<open>re\<close> anchored at the start.\<close>

definition test :: "rx \<Rightarrow> string \<Rightarrow> bool" where
  "test r s = (run r s \<noteq> [])"

definition match :: "rx \<Rightarrow> string \<Rightarrow> string option list option" where
  "match r s = (case run r s of [] \<Rightarrow> None | (caps, rest) # alternatives \<Rightarrow> Some caps)"

text \<open>The character classes. \<^verbatim>\<open>.\<close> excludes the line terminators.\<close>

definition not_slash :: "char \<Rightarrow> bool" where
  "not_slash c = (c \<noteq> CHR ''/'')"

definition upper :: "char \<Rightarrow> bool" where
  "upper c = (c \<in> set ''ABCDEFGHIJKLMNOPQRSTUVWXYZ'')"

definition digit :: "char \<Rightarrow> bool" where
  "digit c = (c \<in> set ''0123456789'')"

definition dot :: "char \<Rightarrow> bool" where
  "dot c = (c \<noteq> CHR 0x0A \<and> c \<noteq> CHR 0x0D)"

text \<open>\<^verbatim>\<open>s.includes(w)\<close>: \<open>w\<close> occurs in \<open>s\<close> at some position.\<close>

fun string_includes :: "string \<Rightarrow> string \<Rightarrow> bool" where
  "string_includes [] w = (w = [])"
| "string_includes (c # cs) w = (take (length w) (c # cs) = w \<or> string_includes cs w)"

section \<open>The page location\<close>

text \<open>
  The utilities read \<^verbatim>\<open>window.location\<close>. The browser splits the URL; the record holds
  the four parts the code reads. Strings are the URL's serialisation, which is ASCII.
\<close>

record location =
  href :: string
  hostname :: string
  pathname :: string
  search :: string

section \<open>Linear: \<^verbatim>\<open>entrypoints/utils/linear.ts\<close>\<close>

record LinearIssueInfo =
  issueId :: string
  issueTitle :: string
  projectKey :: string
  fullUrl :: string

text \<open>\<^verbatim>\<open>/^\/[^/]+\/issue\/[^/]+/\<close>\<close>

definition linear_urlPattern :: rx where
  "linear_urlPattern =
     Seq (Lit ''/'') (Seq (Plus not_slash) (Seq (Lit ''/issue/'') (Plus not_slash)))"

definition isLinearIssuePage :: "location \<Rightarrow> bool" where
  "isLinearIssuePage loc = test linear_urlPattern (pathname loc)"

text \<open>\<^verbatim>\<open>/^\/([^/]+)\/issue\/([^/]+)(?:\/(.+))?/\<close> and \<^verbatim>\<open>/^([A-Z]+)-/\<close>\<close>

definition linear_pathPattern :: rx where
  "linear_pathPattern =
     Seq (Lit ''/'') (Seq (Cap (Plus not_slash)) (Seq (Lit ''/issue/'')
       (Seq (Cap (Plus not_slash)) (Opt (Seq (Lit ''/'') (Cap (Plus dot)))))))"

definition linear_projectKeyPattern :: rx where
  "linear_projectKeyPattern = Seq (Cap (Plus upper)) (Lit ''-'')"

text \<open>
  \<open>getLinearIssueInfo\<close> returns \<^verbatim>\<open>null\<close> (\<open>None\<close>) off issue pages and when the path
  does not match. Groups 1 and 2 take part in every match of the path pattern; the
  last case stands for a match without them, which would raise in the source.
  \<^verbatim>\<open>issueTitle || ""\<close> turns an absent third group into the empty string.
\<close>

definition getLinearIssueInfo :: "location \<Rightarrow> LinearIssueInfo option" where
  "getLinearIssueInfo loc =
     (if \<not> isLinearIssuePage loc then None
      else case match linear_pathPattern (pathname loc) of
        None \<Rightarrow> None
      | Some [Some workspace, Some issue, title] \<Rightarrow>
          Some \<lparr> issueId = issue,
                 issueTitle = (case title of None \<Rightarrow> '''' | Some t \<Rightarrow> t),
                 projectKey = (case match linear_projectKeyPattern issue of
                                 Some [Some k] \<Rightarrow> k
                               | _ \<Rightarrow> ''''),
                 fullUrl = href loc \<rparr>
      | Some _ \<Rightarrow> None)"

section \<open>Jira: \<^verbatim>\<open>entrypoints/utils/jira.ts\<close>\<close>

text \<open>\<^verbatim>\<open>/^\/jira\/software\/projects\/.+\/boards\/\d+/\<close> and \<^verbatim>\<open>/^\/browse\/[A-Z]+-\d+/\<close>\<close>

definition boardUrlPattern :: rx where
  "boardUrlPattern =
     Seq (Lit ''/jira/software/projects/'') (Seq (Plus dot) (Seq (Lit ''/boards/'') (Plus digit)))"

definition browseUrlPattern :: rx where
  "browseUrlPattern =
     Seq (Lit ''/browse/'') (Seq (Plus upper) (Seq (Lit ''-'') (Plus digit)))"

definition isJiraIssuePage :: "location \<Rightarrow> bool" where
  "isJiraIssuePage loc =
     (let hasSelectedIssue = string_includes (search loc) ''selectedIssue='';
          isBoardView = (test boardUrlPattern (pathname loc) \<and> hasSelectedIssue);
          isBrowseView = test browseUrlPattern (pathname loc)
      in isBoardView \<or> isBrowseView)"

section \<open>Plane: \<^verbatim>\<open>entrypoints/utils/plane.ts\<close>\<close>

text \<open>\<^verbatim>\<open>/^\/[^/]+\/projects\/[^/]+\/issues\//\<close> and \<^verbatim>\<open>/^\/[^/]+\/browse\/[A-Z]+-\d+/\<close>\<close>

definition projectIssuesPattern :: rx where
  "projectIssuesPattern =
     Seq (Lit ''/'') (Seq (Plus not_slash) (Seq (Lit ''/projects/'')
       (Seq (Plus not_slash) (Lit ''/issues/''))))"

definition browsePattern :: rx where
  "browsePattern =
     Seq (Lit ''/'') (Seq (Plus not_slash) (Seq (Lit ''/browse/'')
       (Seq (Plus upper) (Seq (Lit ''-'') (Plus digit)))))"

definition isPlaneIssuePage :: "location \<Rightarrow> bool" where
  "isPlaneIssuePage loc =
     (test projectIssuesPattern (pathname loc) \<or> test browsePattern (pathname loc))"

section \<open>Vocabulary for the URL properties\<close>

text \<open>
  The words matched by a pattern, independent of the order in which the engine tries
  them; used to characterise \<open>test\<close>.
\<close>

fun lang :: "rx \<Rightarrow> string set" where
  "lang (Lit w) = {w}"
| "lang (Plus p) = {w. w \<noteq> [] \<and> list_all p w}"
| "lang (Seq a b) = {u @ v | u v. u \<in> lang a \<and> v \<in> lang b}"
| "lang (Cap r) = lang r"
| "lang (Opt r) = insert [] (lang r)"

text \<open>A non-empty run of characters of one class: a path segment, a number, a key prefix.\<close>

definition run_of :: "(char \<Rightarrow> bool) \<Rightarrow> string \<Rightarrow> bool" where
  "run_of p w = (w \<noteq> [] \<and> list_all p w)"

definition first :: "'a list \<Rightarrow> 'a option" where
  "first xs = (case xs of [] \<Rightarrow> None | x # rest \<Rightarrow> Some x)"

text \<open>
  What the optional group \<^verbatim>\<open>(?:\/(.+))?\<close> captures from the input left after the key:
  the text after a slash up to the first line terminator, when there is any.
\<close>

definition slug_of :: "string \<Rightarrow> string option" where
  "slug_of rest =
     (case rest of
        [] \<Rightarrow> None
      | c # t \<Rightarrow> if c = CHR ''/'' \<and> takeWhile dot t \<noteq> [] then Some (takeWhile dot t) else None)"

text \<open>The project key \<^verbatim>\<open>/^([A-Z]+)-/\<close> finds in an issue id, or the empty string.\<close>

definition key_prefix :: "string \<Rightarrow> string" where
  "key_prefix issue =
     (if takeWhile upper issue \<noteq> [] \<and> take 1 (dropWhile upper issue) = ''-''
      then takeWhile upper issue else '''')"

section \<open>PKCE: the code challenge of the background flow\<close>

unbundle bit_operations_syntax

type_synonym byte = "8 word"

subsection \<open>The platform's digest: \<^verbatim>\<open>crypto.subtle.digest("SHA-256", data)\<close>\<close>

text \<open>
  The digest is computed by the browser, not by the repository. It is written out here
  after FIPS 180-4 so that the challenge of a given verifier can be evaluated. A 32-bit
  word is a natural number below \<open>2 ^ 32\<close>; addition wraps around explicitly.
\<close>

definition add32 :: "nat \<Rightarrow> nat \<Rightarrow> nat" where
  "add32 x y = (x + y) mod 4294967296"

definition rotr :: "nat \<Rightarrow> nat \<Rightarrow> nat" where
  "rotr n x = x div 2 ^ n + (x mod 2 ^ n) * 2 ^ (32 - n)"

definition shr :: "nat \<Rightarrow> nat \<Rightarrow> nat" where
  "shr n x = x div 2 ^ n"

definition not32 :: "nat \<Rightarrow> nat" where
  "not32 x = 4294967295 - x"

definition Ch :: "nat \<Rightarrow> nat \<Rightarrow> nat \<Rightarrow> nat" where
  "Ch x y z = (x AND y) XOR (not32 x AND z)"

definition Maj :: "nat \<Rightarrow> nat \<Rightarrow> nat \<Rightarrow> nat" where
  "Maj x y z = (x AND y) XOR (x AND z) XOR (y AND z)"

definition Sigma0 :: "nat \<Rightarrow> nat" where
  "Sigma0 x = rotr 2 x XOR rotr 13 x XOR rotr 22 x"

definition Sigma1 :: "nat \<Rightarrow> nat" where
  "Sigma1 x = rotr 6 x XOR rotr 11 x XOR rotr 25 x"

definition sigma0 :: "nat \<Rightarrow> nat" where
  "sigma0 x = rotr 7 x XOR rotr 18 x XOR shr 3 x"

definition sigma1 :: "nat \<Rightarrow> nat" where
  "sigma1 x = rotr 17 x XOR rotr 19 x XOR shr 10 x"

text \<open>
  The round constants (the first 32 bits of the fractional parts of the cube roots of
  the first 64 primes) and the initial hash value (of the square roots of the first 8
  primes), in decimal.
\<close>

definition K256 :: "nat list" where
  "K256 =
    [1116352408, 1899447441, 3049323471, 3921009573, 961987163, 1508970993, 2453635748, 2870763221,
     3624381080, 310598401, 607225278, 1426881987, 1925078388, 2162078206, 2614888103, 3248222580,
     3835390401, 4022224774, 264347078, 604807628, 770255983, 1249150122, 1555081692, 1996064986,
     2554220882, 2821834349, 2952996808, 3210313671, 3336571891, 3584528711, 113926993, 338241895,
     666307205, 773529912, 1294757372, 1396182291, 1695183700, 1986661051, 2177026350, 2456956037,
     2730485921, 2820302411, 3259730800, 3345764771, 3516065817, 3600352804, 4094571909, 275423344,
     430227734, 506948616, 659060556, 883997877, 958139571, 1322822218, 1537002063, 1747873779,
     1955562222, 2024104815, 2227730452, 2361852424, 2428436474, 2756734187, 3204031479, 3329325298]"

definition H256 :: "nat list" where
  "H256 = [1779033703, 3144134277, 1013904242, 2773480762,
           1359893119, 2600822924, 528734635, 1541459225]"

text \<open>
  Padding: the byte \<open>0x80\<close>, zero bytes up to 56 modulo 64, the bit length in 8 bytes,
  most significant first.
\<close>

definition length_bytes :: "nat \<Rightarrow> nat list" where
  "length_bytes n =
     [n div 72057594037927936 mod 256, n div 281474976710656 mod 256,
      n div 1099511627776 mod 256, n div 4294967296 mod 256,
      n div 16777216 mod 256, n div 65536 mod 256, n div 256 mod 256, n mod 256]"

definition pad :: "nat list \<Rightarrow> nat list" where
  "pad m = m @ [128] @ replicate ((119 - length m mod 64) mod 64) 0 @ length_bytes (8 * length m)"

fun be_words :: "nat list \<Rightarrow> nat list" where
  "be_words (a # b # c # d # rest) = (a * 16777216 + b * 65536 + c * 256 + d) # be_words rest"
| "be_words rest = []"

text \<open>
  One round. The second component holds the sixteen most recent words of the message
  schedule; its head is the word of this round, and the word sixteen rounds ahead is
  appended.
\<close>

definition next_word :: "nat list \<Rightarrow> nat" where
  "next_word w = add32 (add32 (add32 (sigma1 (w ! 14)) (w ! 9)) (sigma0 (w ! 1))) (w ! 0)"

definition T1 :: "nat \<Rightarrow> nat \<Rightarrow> nat \<Rightarrow> nat \<Rightarrow> nat \<Rightarrow> nat \<Rightarrow> nat" where
  "T1 e f g h k w = add32 (add32 (add32 (add32 h (Sigma1 e)) (Ch e f g)) k) w"

definition T2 :: "nat \<Rightarrow> nat \<Rightarrow> nat \<Rightarrow> nat" where
  "T2 a b c = add32 (Sigma0 a) (Maj a b c)"

fun round256 :: "nat list \<times> nat list \<Rightarrow> nat \<Rightarrow> nat list \<times> nat list" where
  "round256 ([a, b, c, d, e, f, g, h], w) k =
     ([add32 (T1 e f g h k (hd w)) (T2 a b c), a, b, c, add32 d (T1 e f g h k (hd w)), e, f, g],
      tl w @ [next_word w])"
| "round256 vw k = vw"

definition compress :: "nat list \<Rightarrow> nat list \<Rightarrow> nat list" where
  "compress hs block = map2 add32 hs (fst (foldl round256 (hs, block) K256))"

fun blocks :: "nat list \<Rightarrow> nat list list" where
  "blocks ws = (if length ws < 16 then [] else take 16 ws # blocks (drop 16 ws))"

definition word_bytes :: "nat \<Rightarrow> nat list" where
  "word_bytes w = [w div 16777216, w div 65536 mod 256, w div 256 mod 256, w mod 256]"

definition sha256_digest :: "byte list \<Rightarrow> byte list" where
  "sha256_digest m =
     map of_nat (concat (map word_bytes (foldl compress H256 (blocks (be_words (pad (map unat m)))))))"

declare blocks.simps [simp del]

subsection \<open>The platform's \<^verbatim>\<open>TextEncoder\<close> and \<^verbatim>\<open>btoa\<close>\<close>

text \<open>
  A string of the model is the sequence of its UTF-8 bytes (the verifier is made of the
  digits and lower-case letters of base 36, so one byte per character), which is what
  \<^verbatim>\<open>encoder.encode(plain)\<close> returns.
\<close>

definition encode :: "string \<Rightarrow> byte list" where
  "encode plain = map of_char plain"

text \<open>
  \<^verbatim>\<open>btoa\<close> is the Base64 of RFC 4648 section 4, on a string whose characters are bytes:
  three bytes give four characters, and the last group is padded with \<^verbatim>\<open>=\<close>.
\<close>

definition b64chars :: string where
  "b64chars = ''ABCDEFGHIJKLMNOPQRSTUVWXYZabcdefghijklmnopqrstuvwxyz0123456789+/''"

fun btoa_codes :: "nat list \<Rightarrow> string" where
  "btoa_codes [] = []"
| "btoa_codes [a] = [b64chars ! (a div 4), b64chars ! (a mod 4 * 16), CHR ''='', CHR ''='']"
| "btoa_codes [a, b] =
     [b64chars ! (a div 4), b64chars ! (a mod 4 * 16 + b div 16), b64chars ! (b mod 16 * 4),
      CHR ''='']"
| "btoa_codes (a # b # c # rest) =
     [b64chars ! (a div 4), b64chars ! (a mod 4 * 16 + b div 16),
      b64chars ! (b mod 16 * 4 + c div 64), b64chars ! (c mod 64)] @ btoa_codes rest"

definition btoa :: "string \<Rightarrow> string" where
  "btoa str = btoa_codes (map of_char str)"

subsection \<open>\<^verbatim>\<open>sha256\<close> and \<^verbatim>\<open>base64urlencode\<close> of the background script\<close>

definition sha256 :: "string \<Rightarrow> byte list" where
  "sha256 plain = sha256_digest (encode plain)"

text \<open>
  \<^verbatim>\<open>s.replace(/x/g, y)\<close> for a one-character pattern, and \<^verbatim>\<open>s.replace(/x+$/, "")\<close>: the
  leftmost match that reaches the end of the string is the whole trailing run.
\<close>

definition replace_all :: "char \<Rightarrow> char \<Rightarrow> string \<Rightarrow> string" where
  "replace_all x y s = map (\<lambda>c. if c = x then y else c) s"

definition strip_trailing :: "char \<Rightarrow> string \<Rightarrow> string" where
  "strip_trailing x s = rev (dropWhile (\<lambda>c. c = x) (rev s))"

text \<open>The loop appends \<^verbatim>\<open>String.fromCharCode(bytes[i])\<close> for each byte in turn.\<close>

definition base64urlencode :: "byte list \<Rightarrow> string" where
  "base64urlencode a =
     (let str = map (\<lambda>b. char_of (unat b)) a
      in strip_trailing CHR ''=''
           (replace_all CHR ''/'' CHR ''_'' (replace_all CHR ''+'' CHR ''-'' (btoa str))))"

text \<open>
  The flow: \<^verbatim>\<open>const hashed = await sha256(oauthVerifier); oauthChallenge =
  base64urlencode(hashed)\<close>.
\<close>

definition oauthChallenge :: "string \<Rightarrow> string" where
  "oauthChallenge oauthVerifier = base64urlencode (sha256 oauthVerifier)"

subsection \<open>The encoding the specification names\<close>

text \<open>
  Base64 with the URL-safe alphabet of RFC 4648 section 5 and no padding, written
  directly: the reference \<open>base64urlencode\<close> is compared with.
\<close>

definition b64url_chars :: string where
  "b64url_chars = ''ABCDEFGHIJKLMNOPQRSTUVWXYZabcdefghijklmnopqrstuvwxyz0123456789-_''"

fun base64url_nopad_codes :: "nat list \<Rightarrow> string" where
  "base64url_nopad_codes [] = []"
| "base64url_nopad_codes [a] = [b64url_chars ! (a div 4), b64url_chars ! (a mod 4 * 16)]"
| "base64url_nopad_codes [a, b] =
     [b64url_chars ! (a div 4), b64url_chars ! (a mod 4 * 16 + b div 16),
      b64url_chars ! (b mod 16 * 4)]"
| "base64url_nopad_codes (a # b # c # rest) =
     [b64url_chars ! (a div 4), b64url_chars ! (a mod 4 * 16 + b div 16),
      b64url_chars ! (b mod 16 * 4 + c div 64), b64url_chars ! (c mod 64)]
     @ base64url_nopad_codes rest"

definition base64url_nopad :: "byte list \<Rightarrow> string" where
  "base64url_nopad bytes = base64url_nopad_codes (map unat bytes)"

text \<open>What the two global replacements together do to one character.\<close>

definition url_char :: "char \<Rightarrow> char" where
  "url_char c = (if c = CHR ''+'' then CHR ''-'' else if c = CHR ''/'' then CHR ''_'' else c)"

section \<open>The token store: \<^verbatim>\<open>entrypoints/utils/oauth.ts\<close>\<close>

text \<open>
  One browser context runs one event loop: an \<^verbatim>\<open>async\<close> function runs without
  interruption up to its next \<^verbatim>\<open>await\<close>, and other code runs only while it is
  suspended there. The model has one function for each such stretch of
  \<open>refreshAccessToken\<close>, and a pending promise is its handle together with the
  \<^verbatim>\<open>await\<close> at which its body is suspended.
\<close>

datatype suspended =
    AwaitReply
  | AwaitSet string string
  | AwaitRemove string

datatype outcome = Resolved | Rejected string

text \<open>
  What comes back from \<^verbatim>\<open>browser.runtime.sendMessage\<close>: the background's
  \<^verbatim>\<open>{success: true, data}\<close> with the two tokens, its \<^verbatim>\<open>{success: false, error}\<close>, or
  a rejection of the call itself.
\<close>

datatype reply =
    Success string string
  | Failure "string option"
  | SendError string

record refresh_message =
  msg_endpoint :: string
  msg_clientId :: string
  msg_refreshToken :: string

text \<open>
  The module state: the reactive cells, \<^verbatim>\<open>browser.storage.local\<close>, the variable
  \<open>refreshPromise\<close>, and for the properties the outcome of every promise settled so
  far, the \<^verbatim>\<open>REFRESH_TOKEN\<close> messages sent so far and the number of promises created.
\<close>

record token_store =
  endpoint :: string
  clientId :: string
  accessToken :: string
  refreshToken :: string
  storage :: "string \<rightharpoonup> string"
  refreshPromise :: "(nat \<times> suspended) option"
  settled :: "nat \<rightharpoonup> outcome"
  sent :: "refresh_message list"
  promises :: nat

text \<open>\<^verbatim>\<open>browser.storage.local.remove(["access_token", "refresh_token"])\<close>\<close>

definition remove_tokens :: "(string \<rightharpoonup> string) \<Rightarrow> (string \<rightharpoonup> string)" where
  "remove_tokens m = m(''access_token'' := None, ''refresh_token'' := None)"

text \<open>
  What a call of \<open>refreshAccessToken\<close> gives its caller: a promise that settles as the
  pending promise with that handle does, or one that rejects with an error of its own.
\<close>

datatype returned = Pending nat | Throws string

definition refreshAccessToken :: "token_store \<Rightarrow> returned \<times> token_store" where
  "refreshAccessToken s =
     (case refreshPromise s of
        Some (p, at) \<Rightarrow> (Pending p, s)
      | None \<Rightarrow>
          let currentRefreshToken = refreshToken s in
          if currentRefreshToken = '''' then
            (Throws ''No refresh token available - user logged out'',
             s\<lparr> accessToken := '''', refreshToken := '''',
                storage := remove_tokens (storage s) \<rparr>)
          else
            (Pending (promises s),
             s\<lparr> sent := sent s @ [\<lparr> msg_endpoint = endpoint s, msg_clientId = clientId s,
                                     msg_refreshToken = currentRefreshToken \<rparr>],
                refreshPromise := Some (promises s, AwaitReply),
                promises := Suc (promises s) \<rparr>))"

text \<open>
  The body resumes with the reply. On success it starts the write of both tokens. On
  failure the \<^verbatim>\<open>catch\<close> block clears the cells and starts the removal.
\<close>

definition fail :: "nat \<Rightarrow> string \<Rightarrow> token_store \<Rightarrow> token_store" where
  "fail p message s =
     s\<lparr> accessToken := '''', refreshToken := '''',
        storage := remove_tokens (storage s),
        refreshPromise := Some (p, AwaitRemove message) \<rparr>"

definition receive :: "reply \<Rightarrow> token_store \<Rightarrow> token_store" where
  "receive r s =
     (case refreshPromise s of
        Some (p, AwaitReply) \<Rightarrow>
          (case r of
             Success access refresh \<Rightarrow>
               s\<lparr> storage := (storage s)(''access_token'' \<mapsto> access, ''refresh_token'' \<mapsto> refresh),
                  refreshPromise := Some (p, AwaitSet access refresh) \<rparr>
           | Failure e \<Rightarrow>
               fail p (case e of None \<Rightarrow> ''Failed to refresh token''
                       | Some m \<Rightarrow> if m = '''' then ''Failed to refresh token'' else m) s
           | SendError m \<Rightarrow> fail p m s)
      | other \<Rightarrow> s)"

text \<open>
  The body resumes after the storage call: it sets the cells and resolves, or rethrows;
  \<^verbatim>\<open>finally\<close> resets \<open>refreshPromise\<close> either way.
\<close>

definition storage_done :: "token_store \<Rightarrow> token_store" where
  "storage_done s =
     (case refreshPromise s of
        Some (p, AwaitSet access refresh) \<Rightarrow>
          s\<lparr> accessToken := access, refreshToken := refresh,
             refreshPromise := None, settled := (settled s)(p \<mapsto> Resolved) \<rparr>
      | Some (p, AwaitRemove message) \<Rightarrow>
          s\<lparr> refreshPromise := None, settled := (settled s)(p \<mapsto> Rejected message) \<rparr>
      | other \<Rightarrow> s)"

text \<open>
  A history of one context: calls of \<open>refreshAccessToken\<close> interleaved with the two
  resumptions. \<open>exec\<close> runs it and collects what each call returned.
\<close>

datatype event = Call | Reply reply | StorageDone

fun exec :: "event list \<Rightarrow> token_store \<Rightarrow> returned list \<times> token_store" where
  "exec [] s = ([], s)"
| "exec (Call # es) s =
     (let (r, s1) = refreshAccessToken s; (rs, s2) = exec es s1 in (r # rs, s2))"
| "exec (Reply r # es) s = exec es (receive r s)"
| "exec (StorageDone # es) s = exec es (storage_done s)"

text \<open>The result of a reply, as the caller of a settled refresh sees it.\<close>

definition outcome_of :: "reply \<Rightarrow> outcome" where
  "outcome_of r =
     (case r of
        Success access refresh \<Rightarrow> Resolved
      | Failure e \<Rightarrow> Rejected (case e of None \<Rightarrow> ''Failed to refresh token''
                       | Some m \<Rightarrow> if m = '''' then ''Failed to refresh token'' else m)
      | SendError m \<Rightarrow> Rejected m)"

section \<open>The HTTP client: \<^verbatim>\<open>entrypoints/utils/api.ts\<close>\<close>

text \<open>
  A request configuration as the interceptor sees it: what is asked for, the
  \<^verbatim>\<open>Authorization\<close> header, and the mark \<^verbatim>\<open>_retry\<close>, absent on a new request.
\<close>

record request =
  target :: string
  authorization :: string
  retry :: bool

datatype http_response = Http nat string | NoResponse

text \<open>
  axios resolves on a status from 200 to 299 and rejects otherwise; a request without
  any response rejects with an error whose \<^verbatim>\<open>response\<close> is undefined.
\<close>

definition ok :: "http_response \<Rightarrow> bool" where
  "ok response = (case response of Http code body \<Rightarrow> 200 \<le> code \<and> code < 300 | NoResponse \<Rightarrow> False)"

definition status :: "http_response \<Rightarrow> nat option" where
  "status response = (case response of Http code body \<Rightarrow> Some code | NoResponse \<Rightarrow> None)"

text \<open>
  What the caller of the client gets: the response, the rejection of the request with
  its response and configuration, or the rejection of the refresh. \<open>Unsettled\<close> stands
  for a refresh promise that never settles.
\<close>

datatype result =
    Fulfilled http_response
  | RequestFailed http_response request
  | RefreshFailed string
  | Unsettled

record client =
  store :: token_store
  http_log :: "request list"

text \<open>
  The outside: the server's response to a request, given the requests sent before it,
  and the background's reply to a \<^verbatim>\<open>REFRESH_TOKEN\<close> message.
\<close>

record world =
  respond :: "request list \<Rightarrow> request \<Rightarrow> http_response"
  background :: reply

text \<open>
  \<^verbatim>\<open>await refreshAccessToken()\<close>: the call, and when it returned a pending promise, the
  rest of that refresh up to its settlement.
\<close>

definition await_refresh :: "reply \<Rightarrow> token_store \<Rightarrow> outcome option \<times> token_store" where
  "await_refresh r s =
     (case refreshAccessToken s of
        (Throws e, s1) \<Rightarrow> (Some (Rejected e), s1)
      | (Pending p, s1) \<Rightarrow> (let s2 = storage_done (receive r s1) in (settled s2 p, s2)))"

text \<open>
  \<^verbatim>\<open>client.axios(config)\<close> with the response interceptor installed by \<open>apiClient\<close>. The
  retry goes through the same client, so through the same interceptor.
\<close>

function axios :: "world \<Rightarrow> request \<Rightarrow> client \<Rightarrow> result \<times> client" where
  "axios w config c =
     (let response = respond w (http_log c) config;
          c1 = c\<lparr> http_log := http_log c @ [config] \<rparr>
      in if ok response then (Fulfilled response, c1)
         else if status response = Some 401 \<and> \<not> retry config then
           (case await_refresh (background w) (store c1) of
              (Some Resolved, st) \<Rightarrow>
                axios w (config\<lparr> retry := True, authorization := ''Bearer '' @ accessToken st \<rparr>)
                  (c1\<lparr> store := st \<rparr>)
            | (Some (Rejected e), st) \<Rightarrow> (RefreshFailed e, c1\<lparr> store := st \<rparr>)
            | (None, st) \<Rightarrow> (Unsettled, c1\<lparr> store := st \<rparr>))
         else (RequestFailed response config, c1))"
  by pat_completeness auto
termination
  by (relation "measure (\<lambda>(w, config, c). if retry config then 0 else 1)") auto

declare axios.simps [simp del]

text \<open>A new request of \<open>apiClient()\<close> carries the access token of the moment.\<close>

definition new_request :: "string \<Rightarrow> client \<Rightarrow> request" where
  "new_request t c = \<lparr> target = t, authorization = ''Bearer '' @ accessToken (store c), retry = False \<rparr>"

section \<open>The OAuth flow of the background script\<close>

text \<open>
  The callback that \<^verbatim>\<open>browser.identity.launchWebAuthFlow\<close> calls with the redirect URL, in
  the \<^verbatim>\<open>START_OAUTH_FLOW\<close> handler. Of the background's variables it reads \<open>oauthState\<close>
  and \<open>oauthVerifier\<close>; it writes \<^verbatim>\<open>browser.storage.local\<close>. The state also logs the
  requests made to the token endpoint.
\<close>

record token_request =
  token_url :: string
  grant_type :: string
  client_id :: string
  redirect_uri :: string
  code_verifier :: string
  code :: string

record background_state =
  oauthState :: string
  oauthVerifier :: string
  local_storage :: "string \<rightharpoonup> string"
  token_requests :: "token_request list"

text \<open>
  The platform: \<^verbatim>\<open>new URL(responseUrl).searchParams\<close>, which raises on a string that is
  not a URL (\<open>Inl\<close> with the message), and the token endpoint behind \<^verbatim>\<open>fetch\<close>: the call
  fails, the status is not a success, the body is not JSON, or the body holds the tokens.
\<close>

datatype token_response =
    FetchError string
  | NotOk
  | BadBody string
  | TokenBody string string

record platform =
  searchParams :: "string \<Rightarrow> string + (string \<rightharpoonup> string)"
  token_endpoint :: "token_request \<Rightarrow> token_response"

datatype flow_response = FlowSuccess string string | FlowFailure string

text \<open>A parameter that is absent or empty is falsy.\<close>

definition truthy :: "string option \<Rightarrow> bool" where
  "truthy v = (case v of None \<Rightarrow> False | Some x \<Rightarrow> x \<noteq> '''')"

text \<open>
  \<open>lastError\<close> is \<^verbatim>\<open>browser.runtime.lastError\<close>: absent, or an error whose message may be
  absent. Everything from \<^verbatim>\<open>new URL\<close> on is inside the \<^verbatim>\<open>try\<close>, whose \<^verbatim>\<open>catch\<close> answers
  with the message of what was thrown.
\<close>

definition launchWebAuthFlow_callback ::
  "platform \<Rightarrow> string \<Rightarrow> string \<Rightarrow> string \<Rightarrow> string option option \<Rightarrow> string option
     \<Rightarrow> background_state \<Rightarrow> flow_response \<times> background_state" where
  "launchWebAuthFlow_callback pf endpoint_url clientId_value redirectUrl lastError responseUrl s =
     (case lastError of
        Some message \<Rightarrow>
          (FlowFailure (if truthy message then the message else ''OAuth failed''), s)
      | None \<Rightarrow>
          if \<not> truthy responseUrl then (FlowFailure ''No response URL'', s)
          else
            (case searchParams pf (the responseUrl) of
               Inl message \<Rightarrow> (FlowFailure message, s)
             | Inr params \<Rightarrow>
                 let code_param = params ''code'';
                     responseState = params ''state'';
                     error = params ''error''
                 in if truthy error then (FlowFailure (''OAuth error: '' @ the error), s)
                    else if responseState \<noteq> Some (oauthState s) \<or> \<not> truthy code_param then
                      (FlowFailure ''Invalid state or missing code'', s)
                    else
                      let request = \<lparr> token_url = endpoint_url @ ''/oauth/token'',
                                       grant_type = ''authorization_code'',
                                       client_id = clientId_value,
                                       redirect_uri = redirectUrl,
                                       code_verifier = oauthVerifier s,
                                       code = the code_param \<rparr>;
                          s1 = s\<lparr> token_requests := token_requests s @ [request] \<rparr>
                      in (case token_endpoint pf request of
                            FetchError message \<Rightarrow> (FlowFailure message, s1)
                          | NotOk \<Rightarrow> (FlowFailure ''Token exchange failed'', s1)
                          | BadBody message \<Rightarrow> (FlowFailure message, s1)
                          | TokenBody access refresh \<Rightarrow>
                              (FlowSuccess access refresh,
                               s1\<lparr> local_storage :=
                                     (local_storage s1)(''access_token'' \<mapsto> access,
                                                         ''refresh_token'' \<mapsto> refresh) \<rparr>))))"

section \<open>The injected control: \<^verbatim>\<open>injectTimeTrackingSection\<close> and its siblings\<close>

text \<open>
  \<^verbatim>\<open>injectTimeTrackingSection\<close> (Linear), \<^verbatim>\<open>injectJiraTimeTrackingButton\<close> and
  \<^verbatim>\<open>injectPlaneTimeTrackingButton\<close> are the same function up to the element id they look
  for and give to what they create. Of the document the model keeps the ids of its
  elements, in document order; of the content script, the access token cell and the
  number of calls of the function that are suspended at
  \<^verbatim>\<open>await getCurrentTimeEntry()\<close>.
\<close>

definition SECTION_ID :: string where
  "SECTION_ID = ''solidtime-time-tracking-section''"

definition BUTTON_WRAPPER_ID :: string where
  "BUTTON_WRAPPER_ID = ''solidtime-jira-button-wrapper''"

definition PLANE_BUTTON_ID :: string where
  "PLANE_BUTTON_ID = ''solidtime-plane-tracking-btn''"

record tab =
  elements :: "string list"
  tab_accessToken :: string
  suspended_injections :: nat

text \<open>\<^verbatim>\<open>document.getElementById(i)\<close> finds the first element with the id, if there is one.\<close>

definition getElementById :: "string \<Rightarrow> tab \<Rightarrow> bool" where
  "getElementById i t = (i \<in> set (elements t))"

text \<open>
  The function up to its \<^verbatim>\<open>await\<close>: the existence check, the removal of the element
  found when the caller asked for a replacement, and then, with an access token, the
  request for the current time entry, at which the call is suspended. Without an access
  token nothing is awaited and the call goes on to create and append the control.
\<close>

definition append_control :: "string \<Rightarrow> tab \<Rightarrow> tab" where
  "append_control i t = t\<lparr> elements := elements t @ [i] \<rparr>"

definition inject_begin :: "string \<Rightarrow> bool \<Rightarrow> tab \<Rightarrow> tab" where
  "inject_begin i skipExistingCheck t =
     (let existing = getElementById i t in
      if existing \<and> \<not> skipExistingCheck then t
      else
        let t1 = (if existing then t\<lparr> elements := remove1 i (elements t) \<rparr> else t) in
        if tab_accessToken t1 \<noteq> '''' then t1\<lparr> suspended_injections := Suc (suspended_injections t1) \<rparr>
        else append_control i t1)"

text \<open>
  A suspended call resumes, with the entry or with the error that the \<^verbatim>\<open>catch\<close> logs,
  creates the control and appends it to the container it was given.
\<close>

definition inject_resume :: "string \<Rightarrow> tab \<Rightarrow> tab" where
  "inject_resume i t =
     (case suspended_injections t of
        0 \<Rightarrow> t
      | Suc n \<Rightarrow> append_control i (t\<lparr> suspended_injections := n \<rparr>))"

text \<open>\<^verbatim>\<open>removeTimeTrackingSection\<close> and its siblings: the element found is removed.\<close>

definition remove_control :: "string \<Rightarrow> tab \<Rightarrow> tab" where
  "remove_control i t = t\<lparr> elements := remove1 i (elements t) \<rparr>"

text \<open>
  What happens in a tab, as far as the control goes: a call of the injection function
  (from \<open>handlePageLoad\<close> and from the watchdog with the check, from the click handler
  without it), the resumption of a suspended call, a call of the removal function, and
  the host page dropping the region that holds the control.
\<close>

datatype dom_event = Inject bool | Resume | Remove | HostRerender

fun dom_step :: "string \<Rightarrow> dom_event \<Rightarrow> tab \<Rightarrow> tab" where
  "dom_step i (Inject skipExistingCheck) t = inject_begin i skipExistingCheck t"
| "dom_step i Resume t = inject_resume i t"
| "dom_step i Remove t = remove_control i t"
| "dom_step i HostRerender t = t\<lparr> elements := filter (\<lambda>x. x \<noteq> i) (elements t) \<rparr>"

definition dom_run :: "string \<Rightarrow> dom_event list \<Rightarrow> tab \<Rightarrow> tab" where
  "dom_run i es t = foldl (\<lambda>t e. dom_step i e t) t es"

definition controls :: "string \<Rightarrow> tab \<Rightarrow> nat" where
  "controls i t = count_list (elements t) i"

section \<open>The timer: \<^verbatim>\<open>useTimer\<close> and the time-entry mutations\<close>

text \<open>
  A time entry as the popup holds it. \<^verbatim>\<open>null\<close> and an absent key are \<open>None\<close>. Timestamps
  are the strings \<^verbatim>\<open>dayjs().utc().format()\<close> returns, all of one width, so that their
  order as strings is their order in time. \<open>id\<close> and \<open>end\<close> are written \<open>id_te\<close> and
  \<open>end_te\<close>.
\<close>

record TimeEntry =
  id_te :: string
  description :: "string option"
  user_id :: string
  start :: string
  end_te :: "string option"
  duration :: "nat option"
  task_id :: "string option"
  project_id :: "string option"
  tags :: "string list"
  billable :: bool
  organization_id :: "string option"
  member_id :: "string option"

definition emptyTimeEntry :: TimeEntry where
  "emptyTimeEntry =
     \<lparr> id_te = '''', description = None, user_id = '''', start = '''', end_te = None,
       duration = None, task_id = None, project_id = None, tags = [], billable = False,
       organization_id = Some '''', member_id = None \<rparr>"

record membership =
  membership_id :: string
  organization :: string

text \<open>
  The query cache holds under \<^verbatim>\<open>['currentTimeEntry']\<close> what \<^verbatim>\<open>setQueryData\<close> put there: the
  stop mutation puts a bare entry, the create mutation an entry under \<^verbatim>\<open>data\<close>.
\<close>

datatype cached = Bare TimeEntry | Data TimeEntry

text \<open>
  \<^verbatim>\<open>onMutate\<close> of a mutation is an \<^verbatim>\<open>async\<close> function: it writes to the cache only
  after its \<^verbatim>\<open>await\<close>s of \<^verbatim>\<open>queryClient.cancelQueries\<close>, two in the stop mutation, one
  in the create mutation. A suspended \<^verbatim>\<open>onMutate\<close> is the \<^verbatim>\<open>await\<close> it waits at; the one
  of the create mutation holds the variables it was called with.
\<close>

datatype onMutate = StopFirstAwait | StopSecondAwait | CreateAwait TimeEntry

text \<open>
  The popup's state: the two cells of \<open>useTimer\<close> and \<open>myMemberships\<close>, the memberships
  query, the cache entry, the variables handed to the stop and create mutations so
  far, and the suspended \<^verbatim>\<open>onMutate\<close> bodies in the order in which they reached their
  \<^verbatim>\<open>await\<close>, which is the order in which they resume.
\<close>

record popup =
  currentTimeEntry :: TimeEntry
  currentMembershipId :: "string option"
  memberships :: "membership list"
  query_currentTimeEntry :: "cached option"
  stop_mutations :: "TimeEntry list"
  create_mutations :: "TimeEntry list"
  suspended_onMutate :: "onMutate list"

text \<open>\<open>currentOrganizationId\<close> of \<open>useMyMemberships\<close>: the organization of the current membership.\<close>

definition currentOrganizationId :: "popup \<Rightarrow> string option" where
  "currentOrganizationId s =
     (case find (\<lambda>m. Some (membership_id m) = currentMembershipId s) (memberships s) of
        Some m \<Rightarrow> Some (organization m)
      | None \<Rightarrow> None)"

text \<open>
  \<open>stopTimer\<close> up to its \<^verbatim>\<open>await\<close>: the entry is captured, the membership follows its
  organization, the cell is emptied, and the stop mutation is started with the captured
  entry and its end, whose \<^verbatim>\<open>onMutate\<close> runs up to its first \<^verbatim>\<open>await\<close>. \<open>now\<close> is the
  clock reading \<^verbatim>\<open>dayjs().utc().format()\<close>, used when no end time is given.
\<close>

definition stopTimer :: "string option \<Rightarrow> string \<Rightarrow> popup \<Rightarrow> popup" where
  "stopTimer endTime now s =
     (let stoppedTimeEntry = currentTimeEntry s;
          variables = stoppedTimeEntry
            \<lparr> end_te := Some (case endTime of None \<Rightarrow> now
                              | Some t \<Rightarrow> if t = '''' then now else t) \<rparr>
      in s\<lparr> currentMembershipId :=
               map_option membership_id
                 (find (\<lambda>m. Some (organization m) = organization_id stoppedTimeEntry)
                    (memberships s)),
             currentTimeEntry := emptyTimeEntry,
             stop_mutations := stop_mutations s @ [variables],
             suspended_onMutate := suspended_onMutate s @ [StopFirstAwait] \<rparr>)"

text \<open>
  \<open>startTimer\<close>: the cell gets an empty entry with the staged fields and the clock
  reading as start, and the create mutation is started with that entry and the current
  membership, whose \<^verbatim>\<open>onMutate\<close> runs up to its \<^verbatim>\<open>await\<close>.
\<close>

definition startTimer :: "string \<Rightarrow> popup \<Rightarrow> popup" where
  "startTimer startTime s =
     (let current = currentTimeEntry s;
          entry = emptyTimeEntry
            \<lparr> project_id := project_id current, task_id := task_id current,
              description := description current, tags := tags current,
              billable := billable current, start := startTime \<rparr>;
          timeEntryToCreate = entry\<lparr> member_id := currentMembershipId s \<rparr>
      in s\<lparr> currentTimeEntry := entry,
             create_mutations := create_mutations s @ [timeEntryToCreate],
             suspended_onMutate := suspended_onMutate s @ [CreateAwait timeEntryToCreate] \<rparr>)"

text \<open>
  The suspended \<^verbatim>\<open>onMutate\<close> that is first in line resumes. The stop mutation's goes on
  to its second \<^verbatim>\<open>await\<close>, and from there puts the empty entry into the cache. The
  create mutation's puts its variables into the cache, with the organization current at
  that moment and the id that \<^verbatim>\<open>self.crypto.randomUUID()\<close> returns then.
\<close>

definition resume :: "string \<Rightarrow> popup \<Rightarrow> popup" where
  "resume randomUUID s =
     (case suspended_onMutate s of
        [] \<Rightarrow> s
      | StopFirstAwait # waiting \<Rightarrow> s\<lparr> suspended_onMutate := waiting @ [StopSecondAwait] \<rparr>
      | StopSecondAwait # waiting \<Rightarrow>
          s\<lparr> suspended_onMutate := waiting,
             query_currentTimeEntry := Some (Bare emptyTimeEntry) \<rparr>
      | CreateAwait variables # waiting \<Rightarrow>
          s\<lparr> suspended_onMutate := waiting,
             query_currentTimeEntry :=
               Some (Data (variables\<lparr> organization_id := currentOrganizationId s,
                                        id_te := randomUUID \<rparr>)) \<rparr>)"

section \<open>The matcher and the words of a pattern\<close>

lemma set_plus_rests:
  "set (plus_rests p s) = {rest. \<exists>w. w \<noteq> [] \<and> list_all p w \<and> s = w @ rest}"
proof (induction s)
  case Nil
  then show ?case by simp
next
  case (Cons c cs)
  show ?case
  proof (cases "p c")
    case False
    then show ?thesis by (auto simp: neq_Nil_conv)
  next
    case True
    have "{rest. \<exists>w. w \<noteq> [] \<and> list_all p w \<and> c # cs = w @ rest}
        = insert cs {rest. \<exists>w. w \<noteq> [] \<and> list_all p w \<and> cs = w @ rest}" (is "?L = ?R")
    proof (intro set_eqI iffI)
      fix rest assume "rest \<in> ?L"
      then obtain w where w: "w \<noteq> []" "list_all p w" "c # cs = w @ rest" by blast
      then obtain w' where w': "w = c # w'" by (cases w) auto
      show "rest \<in> ?R"
      proof (cases "w' = []")
        case True with w w' show ?thesis by simp
      next
        case False with w w' show ?thesis by auto
      qed
    next
      fix rest assume "rest \<in> ?R"
      then consider "rest = cs" | w where "w \<noteq> []" "list_all p w" "cs = w @ rest" by blast
      then show "rest \<in> ?L"
      proof cases
        case 1
        with True have "[c] \<noteq> [] \<and> list_all p [c] \<and> c # cs = [c] @ rest" by simp
        then show ?thesis by blast
      next
        case 2
        with True have "c # w \<noteq> [] \<and> list_all p (c # w) \<and> c # cs = (c # w) @ rest" by simp
        then show ?thesis by blast
      qed
    qed
    with True Cons show ?thesis by simp
  qed
qed

lemma mem_run_Seq:
  "(c, rest) \<in> set (run (Seq a b) s) \<longleftrightarrow>
     (\<exists>ca ra cb. (ca, ra) \<in> set (run a s) \<and> (cb, rest) \<in> set (run b ra) \<and> c = ca @ cb)"
  by force

lemma mem_run_Cap:
  "(c, rest) \<in> set (run (Cap r) s) \<longleftrightarrow>
     (\<exists>c'. (c', rest) \<in> set (run r s) \<and> c = Some (take (length s - length rest) s) # c')"
  by force

lemma run_lang: "(\<exists>c. (c, rest) \<in> set (run r s)) \<longleftrightarrow> (\<exists>w\<in>lang r. s = w @ rest)"
proof (induction r arbitrary: s rest)
  case (Lit w)
  have "take (length w) s = w \<Longrightarrow> s = w @ drop (length w) s"
    by (metis append_take_drop_id)
  then show ?case by auto
next
  case (Plus p)
  have "(\<exists>c. (c, rest) \<in> set (run (Plus p) s)) \<longleftrightarrow> rest \<in> set (plus_rests p s)"
    by (auto simp: image_iff)
  also have "\<dots> \<longleftrightarrow> (\<exists>w\<in>lang (Plus p). s = w @ rest)"
    unfolding set_plus_rests by auto
  finally show ?case .
next
  case (Seq a b)
  have "(\<exists>c. (c, rest) \<in> set (run (Seq a b) s)) \<longleftrightarrow>
        (\<exists>ra. (\<exists>ca. (ca, ra) \<in> set (run a s)) \<and> (\<exists>cb. (cb, rest) \<in> set (run b ra)))"
    unfolding mem_run_Seq by blast
  also have "\<dots> \<longleftrightarrow> (\<exists>ra. (\<exists>u\<in>lang a. s = u @ ra) \<and> (\<exists>v\<in>lang b. ra = v @ rest))"
    unfolding Seq ..
  also have "\<dots> \<longleftrightarrow> (\<exists>u\<in>lang a. \<exists>v\<in>lang b. s = (u @ v) @ rest)"
    by auto
  also have "\<dots> \<longleftrightarrow> (\<exists>w\<in>lang (Seq a b). s = w @ rest)"
    by (simp only: lang.simps) blast
  finally show ?case .
next
  case (Cap r)
  have "(\<exists>c. (c, rest) \<in> set (run (Cap r) s)) \<longleftrightarrow> (\<exists>c. (c, rest) \<in> set (run r s))"
    unfolding mem_run_Cap by blast
  then show ?case by (simp add: Cap)
next
  case (Opt r)
  have "(\<exists>c. (c, rest) \<in> set (run (Opt r) s)) \<longleftrightarrow> (\<exists>c. (c, rest) \<in> set (run r s)) \<or> rest = s"
    by auto
  then show ?case unfolding Opt by auto
qed

lemma test_lang: "test r s \<longleftrightarrow> (\<exists>w rest. w \<in> lang r \<and> s = w @ rest)"
proof -
  have "test r s \<longleftrightarrow> (\<exists>c rest. (c, rest) \<in> set (run r s))"
    unfolding test_def by (cases "run r s") auto
  then show ?thesis using run_lang by blast
qed

lemma string_includes_iff: "string_includes s w \<longleftrightarrow> (\<exists>a b. s = a @ w @ b)"
proof (induction s)
  case Nil
  then show ?case by auto
next
  case (Cons c cs)
  have pre: "take (length w) (c # cs) = w \<longleftrightarrow> (\<exists>b. c # cs = w @ b)"
    by (metis append_eq_conv_conj append_take_drop_id)
  show ?case
  proof
    assume "string_includes (c # cs) w"
    then consider "take (length w) (c # cs) = w" | "string_includes cs w" by auto
    then show "\<exists>a b. c # cs = a @ w @ b"
    proof cases
      case 1
      then obtain b where "c # cs = [] @ w @ b" using pre by auto
      then show ?thesis by blast
    next
      case 2
      then obtain a b where "cs = a @ w @ b" using Cons by blast
      then have "c # cs = (c # a) @ w @ b" by simp
      then show ?thesis by blast
    qed
  next
    assume "\<exists>a b. c # cs = a @ w @ b"
    then obtain a b where ab: "c # cs = a @ w @ b" by blast
    show "string_includes (c # cs) w"
    proof (cases a)
      case Nil
      with ab have "\<exists>b. c # cs = w @ b" by auto
      with pre show ?thesis by simp
    next
      case (Cons x a')
      with ab have "cs = a' @ w @ b" by simp
      then have "string_includes cs w" using Cons.IH by blast
      then show ?thesis by simp
    qed
  qed
qed

lemma test_Seq:
  "test (Seq a b) s \<longleftrightarrow> (\<exists>u t. u \<in> lang a \<and> s = u @ t \<and> test b t)"
proof -
  have "test (Seq a b) s \<longleftrightarrow> (\<exists>u v rest. u \<in> lang a \<and> v \<in> lang b \<and> s = (u @ v) @ rest)"
    unfolding test_lang by (simp only: lang.simps) blast
  also have "\<dots> \<longleftrightarrow> (\<exists>u t. u \<in> lang a \<and> s = u @ t \<and> (\<exists>v rest. v \<in> lang b \<and> t = v @ rest))"
    by auto
  finally show ?thesis unfolding test_lang .
qed

lemma test_Seq_Lit: "test (Seq (Lit w) b) s \<longleftrightarrow> (\<exists>t. s = w @ t \<and> test b t)"
  unfolding test_Seq by simp

lemma test_Seq_Plus: "test (Seq (Plus p) b) s \<longleftrightarrow> (\<exists>u t. run_of p u \<and> s = u @ t \<and> test b t)"
  unfolding test_Seq run_of_def by simp

lemma test_Lit: "test (Lit w) s \<longleftrightarrow> (\<exists>t. s = w @ t)"
  unfolding test_lang by simp

lemma test_Plus: "test (Plus p) s \<longleftrightarrow> (\<exists>u t. run_of p u \<and> s = u @ t)"
  unfolding test_lang run_of_def by simp

lemmas test_shape = test_Seq_Lit test_Seq_Plus test_Lit test_Plus

lemma test_Seq_LitI: "test b t \<Longrightarrow> test (Seq (Lit w) b) (w @ t)"
  unfolding test_Seq_Lit by blast

lemma test_Seq_PlusI: "run_of p u \<Longrightarrow> test b t \<Longrightarrow> test (Seq (Plus p) b) (u @ t)"
  unfolding test_Seq_Plus by blast

lemma test_LitI: "test (Lit w) (w @ t)"
  unfolding test_Lit by blast

lemma test_PlusI: "run_of p u \<Longrightarrow> test (Plus p) (u @ t)"
  unfolding test_Plus by blast

lemmas test_shapeI = test_Seq_LitI test_Seq_PlusI test_LitI test_PlusI

section \<open>The page checks as shapes of the path\<close>

lemma linear_urlPattern_iff:
  "test linear_urlPattern s \<longleftrightarrow>
     (\<exists>ws key rest. s = ''/'' @ ws @ ''/issue/'' @ key @ rest
        \<and> run_of not_slash ws \<and> run_of not_slash key)"
proof
  assume "test linear_urlPattern s"
  then show "\<exists>ws key rest. s = ''/'' @ ws @ ''/issue/'' @ key @ rest
        \<and> run_of not_slash ws \<and> run_of not_slash key"
    unfolding linear_urlPattern_def test_shape by auto
next
  assume "\<exists>ws key rest. s = ''/'' @ ws @ ''/issue/'' @ key @ rest
        \<and> run_of not_slash ws \<and> run_of not_slash key"
  then obtain ws key rest where *: "s = ''/'' @ ws @ ''/issue/'' @ key @ rest"
      "run_of not_slash ws" "run_of not_slash key" by blast
  show "test linear_urlPattern s"
    unfolding linear_urlPattern_def *(1) by (intro test_shapeI *)
qed

lemma boardUrlPattern_iff:
  "test boardUrlPattern s \<longleftrightarrow>
     (\<exists>proj n rest. s = ''/jira/software/projects/'' @ proj @ ''/boards/'' @ n @ rest
        \<and> run_of dot proj \<and> run_of digit n)"
proof
  assume "test boardUrlPattern s"
  then show "\<exists>proj n rest. s = ''/jira/software/projects/'' @ proj @ ''/boards/'' @ n @ rest
        \<and> run_of dot proj \<and> run_of digit n"
    unfolding boardUrlPattern_def test_shape by auto
next
  assume "\<exists>proj n rest. s = ''/jira/software/projects/'' @ proj @ ''/boards/'' @ n @ rest
        \<and> run_of dot proj \<and> run_of digit n"
  then obtain proj n rest where *: "s = ''/jira/software/projects/'' @ proj @ ''/boards/'' @ n @ rest"
      "run_of dot proj" "run_of digit n" by blast
  show "test boardUrlPattern s"
    unfolding boardUrlPattern_def *(1) by (intro test_shapeI *)
qed

lemma browseUrlPattern_iff:
  "test browseUrlPattern s \<longleftrightarrow>
     (\<exists>letters digits rest. s = ''/browse/'' @ letters @ ''-'' @ digits @ rest
        \<and> run_of upper letters \<and> run_of digit digits)"
proof
  assume "test browseUrlPattern s"
  then show "\<exists>letters digits rest. s = ''/browse/'' @ letters @ ''-'' @ digits @ rest
        \<and> run_of upper letters \<and> run_of digit digits"
    unfolding browseUrlPattern_def test_shape by auto
next
  assume "\<exists>letters digits rest. s = ''/browse/'' @ letters @ ''-'' @ digits @ rest
        \<and> run_of upper letters \<and> run_of digit digits"
  then obtain letters digits rest where *: "s = ''/browse/'' @ letters @ ''-'' @ digits @ rest"
      "run_of upper letters" "run_of digit digits" by blast
  show "test browseUrlPattern s"
    unfolding browseUrlPattern_def *(1) by (intro test_shapeI *)
qed

lemma projectIssuesPattern_iff:
  "test projectIssuesPattern s \<longleftrightarrow>
     (\<exists>ws proj rest. s = ''/'' @ ws @ ''/projects/'' @ proj @ ''/issues/'' @ rest
        \<and> run_of not_slash ws \<and> run_of not_slash proj)"
proof
  assume "test projectIssuesPattern s"
  then show "\<exists>ws proj rest. s = ''/'' @ ws @ ''/projects/'' @ proj @ ''/issues/'' @ rest
        \<and> run_of not_slash ws \<and> run_of not_slash proj"
    unfolding projectIssuesPattern_def test_shape by auto
next
  assume "\<exists>ws proj rest. s = ''/'' @ ws @ ''/projects/'' @ proj @ ''/issues/'' @ rest
        \<and> run_of not_slash ws \<and> run_of not_slash proj"
  then obtain ws proj rest where *: "s = ''/'' @ ws @ ''/projects/'' @ proj @ ''/issues/'' @ rest"
      "run_of not_slash ws" "run_of not_slash proj" by blast
  show "test projectIssuesPattern s"
    unfolding projectIssuesPattern_def *(1) by (intro test_shapeI *)
qed

lemma browsePattern_iff:
  "test browsePattern s \<longleftrightarrow>
     (\<exists>ws letters digits rest. s = ''/'' @ ws @ ''/browse/'' @ letters @ ''-'' @ digits @ rest
        \<and> run_of not_slash ws \<and> run_of upper letters \<and> run_of digit digits)"
proof
  assume "test browsePattern s"
  then show "\<exists>ws letters digits rest. s = ''/'' @ ws @ ''/browse/'' @ letters @ ''-'' @ digits @ rest
        \<and> run_of not_slash ws \<and> run_of upper letters \<and> run_of digit digits"
    unfolding browsePattern_def test_shape by auto
next
  assume "\<exists>ws letters digits rest. s = ''/'' @ ws @ ''/browse/'' @ letters @ ''-'' @ digits @ rest
        \<and> run_of not_slash ws \<and> run_of upper letters \<and> run_of digit digits"
  then obtain ws letters digits rest where
    *: "s = ''/'' @ ws @ ''/browse/'' @ letters @ ''-'' @ digits @ rest"
      "run_of not_slash ws" "run_of upper letters" "run_of digit digits" by blast
  show "test browsePattern s"
    unfolding browsePattern_def *(1) by (intro test_shapeI *)
qed

section \<open>The first match of a greedy run\<close>

lemma plus_rests_Nil_iff: "plus_rests p s = [] \<longleftrightarrow> takeWhile p s = []"
  by (cases s) auto

lemma take_length_dropWhile: "take (length s - length (dropWhile p s)) s = takeWhile p s"
proof -
  have "length s - length (dropWhile p s) = length (takeWhile p s)"
    by (metis add_diff_cancel_right' length_append takeWhile_dropWhile_id)
  then show ?thesis
    by (metis append_eq_conv_conj takeWhile_dropWhile_id)
qed

text \<open>
  When what follows the run cannot start with a character of the run's class, only the
  longest run is followed by a match: the run is the whole \<open>takeWhile\<close>.
\<close>

lemma concat_plus_rests_guarded:
  assumes "\<And>c cs. p c \<Longrightarrow> F (c # cs) = []"
  shows "concat (map F (plus_rests p s)) = (if takeWhile p s = [] then [] else F (dropWhile p s))"
proof (induction s)
  case Nil
  then show ?case by simp
next
  case (Cons c cs)
  show ?case
  proof (cases "p c")
    case False
    then show ?thesis by simp
  next
    case True
    show ?thesis
    proof (cases cs)
      case Nil
      with True show ?thesis by simp
    next
      case (Cons d ds)
      show ?thesis
      proof (cases "p d")
        case True
        with \<open>p c\<close> Cons Cons.IH assms[of d ds] show ?thesis by simp
      next
        case False
        with \<open>p c\<close> Cons show ?thesis by simp
      qed
    qed
  qed
qed

text \<open>When what follows always matches, the first match is the one after the longest run.\<close>

lemma first_append: "first (xs @ ys) = (case first xs of None \<Rightarrow> first ys | Some x \<Rightarrow> Some x)"
  by (cases xs) (simp_all add: first_def)

lemma first_concat_plus_rests:
  assumes "\<And>r. F r \<noteq> []"
  shows "first (concat (map F (plus_rests p s)))
       = (if takeWhile p s = [] then None else first (F (dropWhile p s)))"
proof (induction s)
  case Nil
  then show ?case by (simp add: first_def)
next
  case (Cons c cs)
  show ?case
  proof (cases "p c")
    case False
    then show ?thesis by (simp add: first_def)
  next
    case True
    have some: "\<And>r. first (F r) \<noteq> None"
      using assms by (simp add: first_def split: list.splits)
    show ?thesis
    proof (cases "takeWhile p cs = []")
      case True
      then have "dropWhile p cs = cs"
        by (metis append_Nil takeWhile_dropWhile_id)
      with True \<open>p c\<close> Cons.IH show ?thesis by (simp add: first_append)
    next
      case False
      with \<open>p c\<close> Cons.IH some[of "dropWhile p cs"] show ?thesis
        by (auto simp: first_append split: option.splits)
    qed
  qed
qed

lemma run_Seq_Lit:
  "run (Seq (Lit w) b) s = (if take (length w) s = w then run b (drop (length w) s) else [])"
  by simp

lemma run_Seq_Cap_Plus:
  "run (Seq (Cap (Plus p)) b) s =
     concat (map (\<lambda>r. map (\<lambda>(cb, rb). (Some (take (length s - length r) s) # cb, rb)) (run b r))
                 (plus_rests p s))"
  by (simp add: map_concat comp_def)

lemma match_first: "match r s = map_option fst (first (run r s))"
  by (simp add: match_def first_def split: list.splits)

lemma takeWhile_run_of:
  assumes "run_of p u" and "t = [] \<or> \<not> p (hd t)"
  shows "takeWhile p (u @ t) = u" and "dropWhile p (u @ t) = t"
proof -
  from assms(1) have all: "\<forall>x\<in>set u. p x" by (simp add: run_of_def list_all_iff)
  from assms(2) have t: "takeWhile p t = []" "dropWhile p t = t"
    by (cases t; simp)+
  from all t show "takeWhile p (u @ t) = u" by (simp add: takeWhile_append2)
  from all t show "dropWhile p (u @ t) = t" by (simp add: dropWhile_append2)
qed

section \<open>Linear: what the path pattern captures\<close>

lemma first_map: "first (map f xs) = map_option f (first xs)"
  by (cases xs) (simp_all add: first_def)

lemma first_plus_rests:
  "first (plus_rests p s) = (if takeWhile p s = [] then None else Some (dropWhile p s))"
  using first_concat_plus_rests[of "\<lambda>r. [r]" p s] by (simp add: first_def)

lemma first_run_Cap_Plus:
  "first (run (Cap (Plus p)) s)
     = (if takeWhile p s = [] then None else Some ([Some (takeWhile p s)], dropWhile p s))"
proof -
  have "run (Cap (Plus p)) s
      = map (\<lambda>r. ([Some (take (length s - length r) s)], r)) (plus_rests p s)"
    by (simp add: comp_def)
  then show ?thesis
    by (simp add: first_map first_plus_rests take_length_dropWhile)
qed

lemma first_run_Opt:
  "first (run (Opt r) s)
     = (case first (run r s) of None \<Rightarrow> Some (replicate (ngroups r) None, s) | Some x \<Rightarrow> Some x)"
  by (cases "run r s") (simp_all add: first_def)

lemma slug_first:
  "map_option fst (first (run (Opt (Seq (Lit ''/'') (Cap (Plus dot)))) rest)) = Some [slug_of rest]"
proof (cases rest)
  case Nil
  then show ?thesis
    unfolding first_run_Opt run_Seq_Lit by (simp add: first_def slug_of_def)
next
  case (Cons c t)
  show ?thesis
  proof (cases "c = CHR ''/''")
    case False
    with Cons show ?thesis
      unfolding first_run_Opt run_Seq_Lit by (simp add: first_def slug_of_def)
  next
    case True
    have a: "run (Seq (Lit ''/'') (Cap (Plus dot))) rest = run (Cap (Plus dot)) t"
      unfolding run_Seq_Lit using Cons True by simp
    show ?thesis
      unfolding first_run_Opt a first_run_Cap_Plus
      using Cons True by (simp add: slug_of_def)
  qed
qed

lemma match_linear_pathPattern:
  assumes ws: "run_of not_slash ws" and key: "run_of not_slash key"
    and rest: "rest = [] \<or> hd rest = CHR ''/''"
  shows "match linear_pathPattern (''/'' @ ws @ ''/issue/'' @ key @ rest)
       = Some [Some ws, Some key, slug_of rest]"
proof -
  let ?opt = "Opt (Seq (Lit ''/'') (Cap (Plus dot)))"
  let ?X = "Seq (Cap (Plus not_slash)) ?opt"
  let ?B = "Seq (Lit ''/issue/'') ?X"
  let ?s1 = "ws @ ''/issue/'' @ key @ rest"
  let ?s2 = "key @ rest"
  have rest': "rest = [] \<or> \<not> not_slash (hd rest)"
    using rest by (auto simp: not_slash_def)
  have tw1: "takeWhile not_slash ?s1 = ws" "dropWhile not_slash ?s1 = ''/issue/'' @ key @ rest"
    using takeWhile_run_of[OF ws, of "''/issue/'' @ key @ rest"] by (simp_all add: not_slash_def)
  have tw2: "takeWhile not_slash ?s2 = key" "dropWhile not_slash ?s2 = rest"
    using takeWhile_run_of[OF key rest'] by simp_all
  have ws_ne: "ws \<noteq> []" and key_ne: "key \<noteq> []"
    using ws key by (simp_all add: run_of_def)
  have guard: "\<And>c cs. not_slash c \<Longrightarrow>
      map (\<lambda>(cb, rb). (Some (take (length ?s1 - length (c # cs)) ?s1) # cb, rb)) (run ?B (c # cs)) = []"
    unfolding run_Seq_Lit by (simp add: not_slash_def del: run.simps)
  have "run (Seq (Cap (Plus not_slash)) ?B) ?s1
      = map (\<lambda>(cb, rb). (Some (take (length ?s1 - length (''/issue/'' @ key @ rest)) ?s1) # cb, rb))
          (run ?B (''/issue/'' @ key @ rest))"
    unfolding run_Seq_Cap_Plus
    using concat_plus_rests_guarded[of not_slash
        "\<lambda>r. map (\<lambda>(cb, rb). (Some (take (length ?s1 - length r) ?s1) # cb, rb)) (run ?B r)" ?s1,
        OF guard]
    unfolding tw1 using ws_ne by (simp del: run.simps)
  also have "take (length ?s1 - length (''/issue/'' @ key @ rest)) ?s1 = ws"
    by simp
  also have "run ?B (''/issue/'' @ key @ rest) = run ?X ?s2"
    unfolding run_Seq_Lit by (simp del: run.simps)
  finally have r1: "run (Seq (Cap (Plus not_slash)) ?B) ?s1
      = map (\<lambda>(cb, rb). (Some ws # cb, rb)) (run ?X ?s2)" .
  have nonempty: "\<And>r. map (\<lambda>(cb, rb). (Some (take (length ?s2 - length r) ?s2) # cb, rb)) (run ?opt r) \<noteq> []"
    by simp
  have "first (run ?X ?s2)
      = first (map (\<lambda>(cb, rb). (Some (take (length ?s2 - length rest) ?s2) # cb, rb)) (run ?opt rest))"
    unfolding run_Seq_Cap_Plus
    using first_concat_plus_rests[of
        "\<lambda>r. map (\<lambda>(cb, rb). (Some (take (length ?s2 - length r) ?s2) # cb, rb)) (run ?opt r)"
        not_slash ?s2, OF nonempty]
    unfolding tw2 using key_ne by (simp del: run.simps)
  also have "take (length ?s2 - length rest) ?s2 = key"
    by simp
  finally have "first (run ?X ?s2) = map_option (\<lambda>(cb, rb). (Some key # cb, rb)) (first (run ?opt rest))"
    unfolding first_map .
  then have "map_option fst (first (run ?X ?s2)) = Some [Some key, slug_of rest]"
    using slug_first[of rest]
    by (cases "first (run ?opt rest)") (auto simp del: run.simps)
  then have "map_option fst (first (run (Seq (Cap (Plus not_slash)) ?B) ?s1))
      = Some [Some ws, Some key, slug_of rest]"
    unfolding r1 first_map
    by (cases "first (run ?X ?s2)") (auto simp del: run.simps)
  moreover have "run linear_pathPattern (''/'' @ ?s1) = run (Seq (Cap (Plus not_slash)) ?B) ?s1"
    unfolding linear_pathPattern_def run_Seq_Lit by (simp del: run.simps)
  ultimately show ?thesis unfolding match_first by (simp del: run.simps)
qed

lemma upper_not_dash: "upper c \<Longrightarrow> c \<noteq> CHR ''-''"
  by (auto simp: upper_def)

lemma match_linear_projectKeyPattern:
  "match linear_projectKeyPattern issue =
     (if takeWhile upper issue \<noteq> [] \<and> take 1 (dropWhile upper issue) = ''-''
      then Some [Some (takeWhile upper issue)] else None)"
proof -
  have guard: "\<And>c cs. upper c \<Longrightarrow>
      map (\<lambda>(cb, rb). (Some (take (length issue - length (c # cs)) issue) # cb, rb))
          (run (Lit ''-'') (c # cs)) = []"
    using upper_not_dash by (simp del: plus_rests.simps)
  have "run linear_projectKeyPattern issue =
      (if takeWhile upper issue = [] then []
       else map (\<lambda>(cb, rb). (Some (takeWhile upper issue) # cb, rb))
                (run (Lit ''-'') (dropWhile upper issue)))"
    unfolding linear_projectKeyPattern_def run_Seq_Cap_Plus
    using concat_plus_rests_guarded[of upper
        "\<lambda>r. map (\<lambda>(cb, rb). (Some (take (length issue - length r) issue) # cb, rb))
                (run (Lit ''-'') r)" issue, OF guard]
    using take_length_dropWhile[of issue upper] by (simp del: run.simps)
  then show ?thesis
    by (cases "dropWhile upper issue") (simp_all add: match_def)
qed

lemma getLinearIssueInfo_on_issue_path:
  assumes "run_of not_slash ws" and "run_of not_slash key"
    and "rest = [] \<or> hd rest = CHR ''/''"
    and "pathname loc = ''/'' @ ws @ ''/issue/'' @ key @ rest"
  shows "getLinearIssueInfo loc =
     Some \<lparr> issueId = key,
            issueTitle = (case slug_of rest of None \<Rightarrow> '''' | Some t \<Rightarrow> t),
            projectKey = key_prefix key,
            fullUrl = href loc \<rparr>"
proof -
  have page: "isLinearIssuePage loc"
    unfolding isLinearIssuePage_def linear_urlPattern_iff using assms by blast
  have m: "match linear_pathPattern (pathname loc) = Some [Some ws, Some key, slug_of rest]"
    using match_linear_pathPattern[OF assms(1-3)] assms(4) by simp
  show ?thesis
    unfolding getLinearIssueInfo_def
    using page m by (simp add: match_linear_projectKeyPattern key_prefix_def)
qed

lemma linear_issue_path_maximal:
  assumes "isLinearIssuePage loc"
  shows "\<exists>ws key rest. pathname loc = ''/'' @ ws @ ''/issue/'' @ key @ rest
           \<and> run_of not_slash ws \<and> run_of not_slash key \<and> (rest = [] \<or> hd rest = CHR ''/'')"
proof -
  from assms obtain ws k r where *: "pathname loc = ''/'' @ ws @ ''/issue/'' @ k @ r"
      "run_of not_slash ws" "run_of not_slash k"
    unfolding isLinearIssuePage_def linear_urlPattern_iff by blast
  let ?key = "k @ takeWhile not_slash r" and ?rest = "dropWhile not_slash r"
  have "pathname loc = ''/'' @ ws @ ''/issue/'' @ ?key @ ?rest"
    using *(1) by simp
  moreover have "run_of not_slash ?key"
    using *(3) by (auto simp: run_of_def list_all_iff dest: set_takeWhileD)
  moreover have "?rest = [] \<or> hd ?rest = CHR ''/''"
    using hd_dropWhile[of not_slash r] by (auto simp: not_slash_def)
  ultimately show ?thesis using *(2) by blast
qed

section \<open>PKCE: the source's encoding is Base64url without padding\<close>

lemma replicate_numeral_unfold: "replicate (numeral k) x = x # replicate (pred_numeral k) x"
  by (simp add: numeral_eq_Suc)

lemma replace_both: "replace_all CHR ''/'' CHR ''_'' (replace_all CHR ''+'' CHR ''-'' s) = map url_char s"
  by (simp add: replace_all_def url_char_def)

lemma length_b64chars: "length b64chars = 64"
  by (simp add: b64chars_def)

lemma map_url_char_b64chars: "map url_char b64chars = b64url_chars"
  by (simp add: b64chars_def b64url_chars_def url_char_def)

lemma url_char_nth: "i < 64 \<Longrightarrow> url_char (b64chars ! i) = b64url_chars ! i"
  using nth_map[of i b64chars url_char] by (simp add: length_b64chars map_url_char_b64chars)

lemma b64url_nth_not_pad: "i < 64 \<Longrightarrow> b64url_chars ! i \<noteq> CHR ''=''"
proof -
  assume "i < 64"
  then have "b64url_chars ! i \<in> set b64url_chars"
    by (intro nth_mem) (simp add: b64url_chars_def)
  moreover have "CHR ''='' \<notin> set b64url_chars"
    by (simp add: b64url_chars_def)
  ultimately show ?thesis by metis
qed

lemma b64url_nth_not_pad': "i < 64 \<Longrightarrow> CHR ''='' \<noteq> b64url_chars ! i"
  using b64url_nth_not_pad[of i] by metis

lemma url_char_pad: "url_char CHR ''='' = CHR ''=''"
  by (simp add: url_char_def)

lemma strip_trailing_append:
  assumes "x \<notin> set A"
  shows "strip_trailing x (A @ B) = A @ strip_trailing x B"
proof (cases "\<forall>c\<in>set (rev B). c = x")
  case True
  have "dropWhile (\<lambda>c. c = x) (rev A) = rev A"
    using assms by (cases "rev A") auto
  moreover have "dropWhile (\<lambda>c. c = x) (rev B) = []"
    using True by simp
  moreover have "dropWhile (\<lambda>c. c = x) (rev B @ rev A) = dropWhile (\<lambda>c. c = x) (rev A)"
    using True by (intro dropWhile_append2) simp
  ultimately show ?thesis
    by (simp add: strip_trailing_def)
next
  case False
  then obtain c where "c \<in> set (rev B)" "c \<noteq> x" by blast
  then have "dropWhile (\<lambda>c. c = x) (rev B @ rev A) = dropWhile (\<lambda>c. c = x) (rev B) @ rev A"
    by (intro dropWhile_append1)
  then show ?thesis by (simp add: strip_trailing_def)
qed

lemma sextet_bounds:
  fixes a b c :: nat
  assumes "a < 256" "b < 256" "c < 256"
  shows "a div 4 < 64" "a mod 4 * 16 < 64" "a mod 4 * 16 + b div 16 < 64"
    "b mod 16 * 4 < 64" "b mod 16 * 4 + c div 64 < 64" "c mod 64 < 64"
  using assms by simp_all (arith+)?

lemma btoa_codes_url:
  "\<forall>x\<in>set cs. x < 256 \<Longrightarrow>
     strip_trailing CHR ''='' (map url_char (btoa_codes cs)) = base64url_nopad_codes cs"
proof (induction cs rule: btoa_codes.induct)
  case 1
  then show ?case by (simp add: strip_trailing_def)
next
  case (2 a)
  then have a: "a < 256" by simp
  show ?case
    using sextet_bounds(1,2)[OF a a a] b64url_nth_not_pad[of "a mod 4 * 16"]
    by (simp add: url_char_nth strip_trailing_def url_char_pad)
next
  case (3 a b)
  then have a: "a < 256" and b: "b < 256" by simp_all
  show ?case
    using sextet_bounds(1,3,4)[OF a b b] b64url_nth_not_pad[of "b mod 16 * 4"]
    by (simp add: url_char_nth strip_trailing_def url_char_pad)
next
  case (4 a b c rest)
  then have a: "a < 256" and b: "b < 256" and c: "c < 256"
    and rest: "\<forall>x\<in>set rest. x < 256" by simp_all
  let ?A = "[b64url_chars ! (a div 4), b64url_chars ! (a mod 4 * 16 + b div 16),
      b64url_chars ! (b mod 16 * 4 + c div 64), b64url_chars ! (c mod 64)]"
  have bounds: "a div 4 < 64" "a mod 4 * 16 + b div 16 < 64"
      "b mod 16 * 4 + c div 64 < 64" "c mod 64 < 64"
    using sextet_bounds[OF a b c] by simp_all
  have eq: "map url_char (btoa_codes (a # b # c # rest)) = ?A @ map url_char (btoa_codes rest)"
    using bounds by (simp add: url_char_nth)
  have no_pad: "CHR ''='' \<notin> set ?A"
    using bounds by (simp add: b64url_nth_not_pad')
  have "strip_trailing CHR ''='' (map url_char (btoa_codes (a # b # c # rest)))
      = ?A @ strip_trailing CHR ''='' (map url_char (btoa_codes rest))"
    unfolding eq by (rule strip_trailing_append[OF no_pad])
  also have "\<dots> = ?A @ base64url_nopad_codes rest"
    using 4(1)[OF rest] by (simp only:)
  also have "\<dots> = base64url_nopad_codes (a # b # c # rest)"
    by simp
  finally show ?case .
qed

lemma unat_byte_less: "unat (b :: byte) < 256"
proof -
  have "unat b < 2 ^ LENGTH(8)" by (rule unsigned_less)
  then show ?thesis by simp
qed

lemma base64urlencode_refines: "base64urlencode a = base64url_nopad a"
proof -
  have small: "\<forall>x\<in>set (map unat a). x < 256"
    using unat_byte_less by auto
  have codes: "map of_char (map (\<lambda>b. char_of (unat b)) a) = map unat a"
    using unat_byte_less by (induction a) simp_all
  show ?thesis
    unfolding base64urlencode_def base64url_nopad_def Let_def btoa_def replace_both codes
    by (rule btoa_codes_url[OF small])
qed

lemmas sha_defs = pad_def length_bytes_def compress_def next_word_def T1_def T2_def
  word_bytes_def H256_def K256_def Ch_def Maj_def Sigma0_def Sigma1_def sigma0_def sigma1_def
  rotr_def shr_def not32_def add32_def

text \<open>The verifier of RFC 7636, appendix B, and its digest.\<close>

lemma rfc7636_block:
  "blocks (be_words (pad (map unat (encode ''dBjftJeZ4CVP-mB92K27uhbUJU1p1r_wW1gFWFOEjXk''))))
   = [[1682074214, 1951032666, 876828240, 762135097, 843788855, 1969775189, 1247097200,
       829579127, 1462855494, 1464225605, 1784179584, 0, 0, 0, 0, 344]]"
  by (simp add: encode_def pad_def length_bytes_def replicate_numeral_unfold blocks.simps)

lemma rfc7636_digest:
  "sha256_digest (encode ''dBjftJeZ4CVP-mB92K27uhbUJU1p1r_wW1gFWFOEjXk'')
   = [19, 211, 30, 150, 26, 26, 216, 236, 47, 22, 177, 12, 76, 152, 46, 8, 118, 168, 120, 173,
      109, 241, 68, 86, 110, 225, 137, 74, 203, 112, 249, 195]"
  unfolding sha256_digest_def rfc7636_block
  by (simp add: sha_defs)

section \<open>Linear: the worked scenario\<close>

text \<open>
  Claim C6. On the page \<^verbatim>\<open>https://linear.app/acme/issue/ST-583/fix-bug\<close>, whose path is
  \<^verbatim>\<open>/acme/issue/ST-583/fix-bug\<close>, \<open>getLinearIssueInfo\<close> returns the issue id
  \<^verbatim>\<open>ST-583\<close>, the title \<^verbatim>\<open>fix-bug\<close> and the project key \<^verbatim>\<open>ST\<close>.
\<close>

theorem linear_scenario_ST_583:
  "getLinearIssueInfo
     \<lparr> href = ''https://linear.app/acme/issue/ST-583/fix-bug'',
       hostname = ''linear.app'',
       pathname = ''/acme/issue/ST-583/fix-bug'',
       search = '''' \<rparr>
   = Some \<lparr> issueId = ''ST-583'', issueTitle = ''fix-bug'', projectKey = ''ST'',
              fullUrl = ''https://linear.app/acme/issue/ST-583/fix-bug'' \<rparr>"
  by (simp add: getLinearIssueInfo_def isLinearIssuePage_def test_def match_def
      linear_urlPattern_def linear_pathPattern_def linear_projectKeyPattern_def
      not_slash_def upper_def dot_def)

section \<open>Issue pages are decided by the URL\<close>

lemma isJiraIssuePage_iff:
  "isJiraIssuePage l \<longleftrightarrow>
     (\<exists>proj n rest. pathname l = ''/jira/software/projects/'' @ proj @ ''/boards/'' @ n @ rest
         \<and> run_of dot proj \<and> run_of digit n)
       \<and> (\<exists>q q'. search l = q @ ''selectedIssue='' @ q')
     \<or> (\<exists>letters digits rest. pathname l = ''/browse/'' @ letters @ ''-'' @ digits @ rest
         \<and> run_of upper letters \<and> run_of digit digits)"
  unfolding isJiraIssuePage_def Let_def boardUrlPattern_iff browseUrlPattern_iff string_includes_iff
  by (rule refl)

lemma isPlaneIssuePage_iff:
  "isPlaneIssuePage l \<longleftrightarrow>
     (\<exists>ws proj rest. pathname l = ''/'' @ ws @ ''/projects/'' @ proj @ ''/issues/'' @ rest
         \<and> run_of not_slash ws \<and> run_of not_slash proj)
     \<or> (\<exists>ws letters digits rest.
           pathname l = ''/'' @ ws @ ''/browse/'' @ letters @ ''-'' @ digits @ rest
         \<and> run_of not_slash ws \<and> run_of upper letters \<and> run_of digit digits)"
  unfolding isPlaneIssuePage_def projectIssuesPattern_iff browsePattern_iff
  by (rule refl)

lemma isLinearIssuePage_iff:
  "isLinearIssuePage l \<longleftrightarrow>
     (\<exists>ws key rest. pathname l = ''/'' @ ws @ ''/issue/'' @ key @ rest
         \<and> run_of not_slash ws \<and> run_of not_slash key)"
  unfolding isLinearIssuePage_def linear_urlPattern_iff by (rule refl)

lemma issue_page_same_url:
  assumes "pathname l = pathname l'" and "search l = search l'"
  shows "isLinearIssuePage l = isLinearIssuePage l'"
    and "isJiraIssuePage l = isJiraIssuePage l'"
    and "isPlaneIssuePage l = isPlaneIssuePage l'"
  using assms by (simp_all add: isLinearIssuePage_def isJiraIssuePage_def isPlaneIssuePage_def)

lemmas page_check_defs =
  isLinearIssuePage_def isJiraIssuePage_def isPlaneIssuePage_def test_def
  linear_urlPattern_def boardUrlPattern_def browseUrlPattern_def
  projectIssuesPattern_def browsePattern_def
  not_slash_def upper_def digit_def dot_def

lemma non_issue_paths:
  "\<not> isLinearIssuePage (l\<lparr>pathname := ''/''\<rparr>)"
  "\<not> isJiraIssuePage (l\<lparr>pathname := ''/''\<rparr>)"
  "\<not> isPlaneIssuePage (l\<lparr>pathname := ''/''\<rparr>)"
  "\<not> isLinearIssuePage (l\<lparr>pathname := ''/acme/team/ST/active''\<rparr>)"
  "\<not> isJiraIssuePage (l\<lparr>pathname := ''/jira/software/projects/PROJ/boards/1/backlog'', search := ''''\<rparr>)"
  "\<not> isJiraIssuePage (l\<lparr>pathname := ''/jira/software/projects/PROJ/list''\<rparr>)"
  "\<not> isPlaneIssuePage (l\<lparr>pathname := ''/acme/projects/''\<rparr>)"
  by (simp_all add: page_check_defs)

text \<open>
  Claim C7. Each of the three page checks is a function of the path and the query of the
  current URL alone. Jira's holds exactly on a path that starts with a board view
  \<^verbatim>\<open>/jira/software/projects/{proj}/boards/{n}\<close> when the query contains
  \<^verbatim>\<open>selectedIssue=\<close>, and on a path that starts with \<^verbatim>\<open>/browse/{KEY}\<close>, the key being
  capital letters, a dash and digits. Plane's holds exactly on a path that starts with
  \<^verbatim>\<open>/{ws}/projects/{id}/issues/\<close> or with \<^verbatim>\<open>/{ws}/browse/{KEY}\<close>. Linear's holds exactly on
  a path that starts with \<^verbatim>\<open>/{ws}/issue/{key}\<close>. So both variants of each platform give
  true and every other path gives false, among them the platform home \<^verbatim>\<open>/\<close>, a Linear
  team list, a Jira backlog without a selected issue, a Jira list view and a Plane
  project list.
\<close>

theorem isIssuePage_decided_by_url:
  "(pathname l = pathname l' \<and> search l = search l' \<longrightarrow>
      isLinearIssuePage l = isLinearIssuePage l'
      \<and> isJiraIssuePage l = isJiraIssuePage l'
      \<and> isPlaneIssuePage l = isPlaneIssuePage l')
   \<and> (isJiraIssuePage l \<longleftrightarrow>
        (\<exists>proj n rest. pathname l = ''/jira/software/projects/'' @ proj @ ''/boards/'' @ n @ rest
            \<and> run_of dot proj \<and> run_of digit n)
          \<and> (\<exists>q q'. search l = q @ ''selectedIssue='' @ q')
        \<or> (\<exists>letters digits rest. pathname l = ''/browse/'' @ letters @ ''-'' @ digits @ rest
            \<and> run_of upper letters \<and> run_of digit digits))
   \<and> (isPlaneIssuePage l \<longleftrightarrow>
        (\<exists>ws proj rest. pathname l = ''/'' @ ws @ ''/projects/'' @ proj @ ''/issues/'' @ rest
            \<and> run_of not_slash ws \<and> run_of not_slash proj)
        \<or> (\<exists>ws letters digits rest.
              pathname l = ''/'' @ ws @ ''/browse/'' @ letters @ ''-'' @ digits @ rest
            \<and> run_of not_slash ws \<and> run_of upper letters \<and> run_of digit digits))
   \<and> (isLinearIssuePage l \<longleftrightarrow>
        (\<exists>ws key rest. pathname l = ''/'' @ ws @ ''/issue/'' @ key @ rest
            \<and> run_of not_slash ws \<and> run_of not_slash key))
   \<and> \<not> isLinearIssuePage (l\<lparr>pathname := ''/''\<rparr>)
   \<and> \<not> isJiraIssuePage (l\<lparr>pathname := ''/''\<rparr>)
   \<and> \<not> isPlaneIssuePage (l\<lparr>pathname := ''/''\<rparr>)
   \<and> \<not> isLinearIssuePage (l\<lparr>pathname := ''/acme/team/ST/active''\<rparr>)
   \<and> \<not> isJiraIssuePage
         (l\<lparr>pathname := ''/jira/software/projects/PROJ/boards/1/backlog'', search := ''''\<rparr>)
   \<and> \<not> isJiraIssuePage (l\<lparr>pathname := ''/jira/software/projects/PROJ/list''\<rparr>)
   \<and> \<not> isPlaneIssuePage (l\<lparr>pathname := ''/acme/projects/''\<rparr>)"
  using issue_page_same_url[of l l'] isJiraIssuePage_iff[of l] isPlaneIssuePage_iff[of l]
    isLinearIssuePage_iff[of l] non_issue_paths[of l]
  by (intro conjI impI) (simp_all only: simp_thms)

text \<open>
  The four issue URLs of the claim, one per variant, and the same Jira board without a
  selected issue, which is not an issue page.
\<close>

theorem isIssuePage_decided_by_url_witness:
  "isJiraIssuePage
     \<lparr> href = ''https://acme.atlassian.net/jira/software/projects/PROJ/boards/1?selectedIssue=PROJ-42'',
       hostname = ''acme.atlassian.net'',
       pathname = ''/jira/software/projects/PROJ/boards/1'',
       search = ''?selectedIssue=PROJ-42'' \<rparr>
   \<and> isJiraIssuePage
     \<lparr> href = ''https://acme.atlassian.net/browse/PROJ-42'', hostname = ''acme.atlassian.net'',
       pathname = ''/browse/PROJ-42'', search = '''' \<rparr>
   \<and> isPlaneIssuePage
     \<lparr> href = ''https://app.plane.so/acme/browse/SOLID-7'', hostname = ''app.plane.so'',
       pathname = ''/acme/browse/SOLID-7'', search = '''' \<rparr>
   \<and> isPlaneIssuePage
     \<lparr> href = ''https://app.plane.so/acme/projects/p1/issues/'', hostname = ''app.plane.so'',
       pathname = ''/acme/projects/p1/issues/'', search = '''' \<rparr>
   \<and> \<not> isJiraIssuePage
     \<lparr> href = ''https://acme.atlassian.net/jira/software/projects/PROJ/boards/1'',
       hostname = ''acme.atlassian.net'',
       pathname = ''/jira/software/projects/PROJ/boards/1'',
       search = '''' \<rparr>"
proof -
  let ?board = "\<lparr> href = ''https://acme.atlassian.net/jira/software/projects/PROJ/boards/1?selectedIssue=PROJ-42'',
       hostname = ''acme.atlassian.net'',
       pathname = ''/jira/software/projects/PROJ/boards/1'',
       search = ''?selectedIssue=PROJ-42'' \<rparr>"
  let ?browse = "\<lparr> href = ''https://acme.atlassian.net/browse/PROJ-42'',
       hostname = ''acme.atlassian.net'', pathname = ''/browse/PROJ-42'', search = '''' \<rparr>"
  let ?pbrowse = "\<lparr> href = ''https://app.plane.so/acme/browse/SOLID-7'', hostname = ''app.plane.so'',
       pathname = ''/acme/browse/SOLID-7'', search = '''' \<rparr>"
  let ?pissues = "\<lparr> href = ''https://app.plane.so/acme/projects/p1/issues/'', hostname = ''app.plane.so'',
       pathname = ''/acme/projects/p1/issues/'', search = '''' \<rparr>"
  let ?plain = "\<lparr> href = ''https://acme.atlassian.net/jira/software/projects/PROJ/boards/1'',
       hostname = ''acme.atlassian.net'',
       pathname = ''/jira/software/projects/PROJ/boards/1'',
       search = '''' \<rparr>"
  have digits: "run_of digit ''1''" "run_of digit ''42''" "run_of digit ''7''"
    and letters: "run_of upper ''PROJ''" "run_of upper ''SOLID''"
    and segs: "run_of dot ''PROJ''" "run_of not_slash ''acme''" "run_of not_slash ''p1''"
    by (simp_all add: run_of_def digit_def upper_def dot_def not_slash_def)
  have "pathname ?board = ''/jira/software/projects/'' @ ''PROJ'' @ ''/boards/'' @ ''1'' @ ''''"
    and "search ?board = ''?'' @ ''selectedIssue='' @ ''PROJ-42''"
    by simp_all
  with digits segs have 1: "isJiraIssuePage ?board"
    using isIssuePage_decided_by_url[of ?board ?board] by blast
  have "pathname ?browse = ''/browse/'' @ ''PROJ'' @ ''-'' @ ''42'' @ ''''"
    by simp
  with digits letters have 2: "isJiraIssuePage ?browse"
    using isIssuePage_decided_by_url[of ?browse ?browse] by blast
  have "pathname ?pbrowse = ''/'' @ ''acme'' @ ''/browse/'' @ ''SOLID'' @ ''-'' @ ''7'' @ ''''"
    by simp
  with digits letters segs have 3: "isPlaneIssuePage ?pbrowse"
    using isIssuePage_decided_by_url[of ?pbrowse ?pbrowse] by blast
  have "pathname ?pissues = ''/'' @ ''acme'' @ ''/projects/'' @ ''p1'' @ ''/issues/'' @ ''''"
    by simp
  with segs have 4: "isPlaneIssuePage ?pissues"
    using isIssuePage_decided_by_url[of ?pissues ?pissues] by blast
  have "\<not> (\<exists>q q'. search ?plain = q @ ''selectedIssue='' @ q')"
    by simp
  moreover have "\<not> (\<exists>letters digits rest.
      pathname ?plain = ''/browse/'' @ letters @ ''-'' @ digits @ rest
      \<and> run_of upper letters \<and> run_of digit digits)"
    by simp
  ultimately have 5: "\<not> isJiraIssuePage ?plain"
    using isIssuePage_decided_by_url[of ?plain ?plain] by blast
  from 1 2 3 4 5 show ?thesis by blast
qed

section \<open>Linear: an issue page always has an identity\<close>

lemma key_prefix_shape:
  assumes "key_prefix issue \<noteq> ''''"
  shows "\<exists>letters rest. issue = letters @ ''-'' @ rest \<and> run_of upper letters"
proof -
  from assms have ne: "takeWhile upper issue \<noteq> []"
    and dash: "take 1 (dropWhile upper issue) = ''-''"
    by (auto simp: key_prefix_def split: if_splits)
  from dash obtain rest where "dropWhile upper issue = ''-'' @ rest"
    by (cases "dropWhile upper issue") auto
  then have "issue = takeWhile upper issue @ ''-'' @ rest"
    by (metis takeWhile_dropWhile_id)
  moreover have "run_of upper (takeWhile upper issue)"
    using ne by (auto simp: run_of_def list_all_iff dest: set_takeWhileD)
  ultimately show ?thesis by blast
qed

lemma getLinearIssueInfo_projectKey:
  assumes "getLinearIssueInfo loc = Some info"
  shows "projectKey info = key_prefix (issueId info)"
proof -
  from assms have "isLinearIssuePage loc"
    by (auto simp: getLinearIssueInfo_def split: if_splits)
  then obtain ws key rest where "pathname loc = ''/'' @ ws @ ''/issue/'' @ key @ rest"
      "run_of not_slash ws" "run_of not_slash key" "rest = [] \<or> hd rest = CHR ''/''"
    using linear_issue_path_maximal by blast
  from getLinearIssueInfo_on_issue_path[OF this(2,3,4,1)] assms show ?thesis by auto
qed

text \<open>
  Claim C10. \<open>getLinearIssueInfo\<close> returns \<^verbatim>\<open>null\<close> exactly when the page check fails,
  so it never does on an issue page. On a path \<^verbatim>\<open>/{workspace}/issue/{key}\<close> with nothing
  after the key, or only a slash, the page check holds and the result has the key as
  issue id and the empty string as title. Whenever the issue id of a result does not
  start with capital letters followed by a dash, its project key is the empty string.
\<close>

theorem linear_identity_on_issue_pages:
  "(getLinearIssueInfo loc = None \<longleftrightarrow> \<not> isLinearIssuePage loc)
   \<and> (run_of not_slash ws \<and> run_of not_slash key
        \<and> (pathname loc = ''/'' @ ws @ ''/issue/'' @ key
            \<or> pathname loc = ''/'' @ ws @ ''/issue/'' @ key @ ''/'') \<longrightarrow>
        isLinearIssuePage loc
        \<and> (\<exists>info. getLinearIssueInfo loc = Some info
              \<and> issueId info = key \<and> issueTitle info = ''''))
   \<and> (getLinearIssueInfo loc = Some info
        \<and> \<not> (\<exists>letters rest. issueId info = letters @ ''-'' @ rest \<and> run_of upper letters) \<longrightarrow>
        projectKey info = '''')"
proof (intro conjI impI)
  show "getLinearIssueInfo loc = None \<longleftrightarrow> \<not> isLinearIssuePage loc"
  proof
    assume none: "getLinearIssueInfo loc = None"
    show "\<not> isLinearIssuePage loc"
    proof
      assume "isLinearIssuePage loc"
      then obtain ws key rest where "pathname loc = ''/'' @ ws @ ''/issue/'' @ key @ rest"
          "run_of not_slash ws" "run_of not_slash key" "rest = [] \<or> hd rest = CHR ''/''"
        using linear_issue_path_maximal by blast
      from getLinearIssueInfo_on_issue_path[OF this(2,3,4,1)] none show False by simp
    qed
  next
    assume "\<not> isLinearIssuePage loc"
    then show "getLinearIssueInfo loc = None" by (simp add: getLinearIssueInfo_def)
  qed
next
  assume a: "run_of not_slash ws \<and> run_of not_slash key
        \<and> (pathname loc = ''/'' @ ws @ ''/issue/'' @ key
            \<or> pathname loc = ''/'' @ ws @ ''/issue/'' @ key @ ''/'')"
  then obtain rest where rest: "rest = [] \<or> rest = ''/''"
      and path: "pathname loc = ''/'' @ ws @ ''/issue/'' @ key @ rest"
    by auto
  from rest have hd: "rest = [] \<or> hd rest = CHR ''/''" and slug: "slug_of rest = None"
    by (auto simp: slug_of_def)
  have info: "getLinearIssueInfo loc =
     Some \<lparr> issueId = key, issueTitle = '''', projectKey = key_prefix key, fullUrl = href loc \<rparr>"
    using getLinearIssueInfo_on_issue_path[OF _ _ hd path] a slug by simp
  show "isLinearIssuePage loc"
    unfolding isLinearIssuePage_def linear_urlPattern_iff using a path by blast
  show "\<exists>info. getLinearIssueInfo loc = Some info \<and> issueId info = key \<and> issueTitle info = ''''"
    using info by simp
next
  assume a: "getLinearIssueInfo loc = Some info
        \<and> \<not> (\<exists>letters rest. issueId info = letters @ ''-'' @ rest \<and> run_of upper letters)"
  then have "key_prefix (issueId info) = ''''"
    using key_prefix_shape[of "issueId info"] by blast
  with a show "projectKey info = ''''"
    using getLinearIssueInfo_projectKey[of loc info] by simp
qed

text \<open>
  An issue URL without a slug whose key is in lower case: the page check holds, the
  title and the project key are empty strings, the result is not \<^verbatim>\<open>null\<close>.
\<close>

theorem linear_identity_on_issue_pages_witness:
  "run_of not_slash ''acme'' \<and> run_of not_slash ''st-583''
   \<and> \<not> (\<exists>letters rest. ''st-583'' = letters @ ''-'' @ rest \<and> run_of upper letters)
   \<and> isLinearIssuePage
       \<lparr> href = ''https://linear.app/acme/issue/st-583'', hostname = ''linear.app'',
         pathname = ''/acme/issue/st-583'', search = '''' \<rparr>
   \<and> getLinearIssueInfo
       \<lparr> href = ''https://linear.app/acme/issue/st-583'', hostname = ''linear.app'',
         pathname = ''/acme/issue/st-583'', search = '''' \<rparr>
     = Some \<lparr> issueId = ''st-583'', issueTitle = '''', projectKey = '''',
              fullUrl = ''https://linear.app/acme/issue/st-583'' \<rparr>"
proof -
  let ?loc = "\<lparr> href = ''https://linear.app/acme/issue/st-583'', hostname = ''linear.app'',
         pathname = ''/acme/issue/st-583'', search = '''' \<rparr>"
  let ?info = "\<lparr> issueId = ''st-583'', issueTitle = '''', projectKey = '''',
              fullUrl = ''https://linear.app/acme/issue/st-583'' \<rparr>"
  have segs: "run_of not_slash ''acme''" "run_of not_slash ''st-583''"
    by (simp_all add: run_of_def not_slash_def)
  have no_prefix: "\<not> (\<exists>letters rest. ''st-583'' = letters @ ''-'' @ rest \<and> run_of upper letters)"
  proof
    assume "\<exists>letters rest. ''st-583'' = letters @ ''-'' @ rest \<and> run_of upper letters"
    then obtain letters rest where eq: "''st-583'' = letters @ ''-'' @ rest"
      and up: "run_of upper letters" by blast
    from up obtain c cs where "letters = c # cs" "upper c"
      by (cases letters) (auto simp: run_of_def)
    with eq have "upper CHR ''s''" by simp
    then show False by (simp add: upper_def)
  qed
  have path: "pathname ?loc = ''/'' @ ''acme'' @ ''/issue/'' @ ''st-583''" by simp
  from linear_identity_on_issue_pages[of ?loc "''acme''" "''st-583''" ?info] segs path
  have page: "isLinearIssuePage ?loc"
    and ex: "\<exists>info. getLinearIssueInfo ?loc = Some info \<and> issueId info = ''st-583''
               \<and> issueTitle info = ''''"
    by blast+
  then obtain info where info: "getLinearIssueInfo ?loc = Some info"
    "issueId info = ''st-583''" "issueTitle info = ''''" by blast
  from linear_identity_on_issue_pages[of ?loc "''acme''" "''st-583''" info] info no_prefix
  have "projectKey info = ''''" by simp
  moreover have "fullUrl info = ''https://linear.app/acme/issue/st-583''"
    using info(1) page by (auto simp: getLinearIssueInfo_def split: option.splits list.splits)
  ultimately have "info = ?info" using info(2,3) by simp
  with segs no_prefix page info(1) show ?thesis by simp
qed

text \<open>
  Claim C5. For every verifier, the code challenge of the background flow is the
  URL-safe Base64 encoding without padding of the SHA-256 digest of the verifier. It
  is a function of the verifier, so two runs on one verifier give one challenge. For
  the verifier of RFC 7636, appendix B, it is the challenge given there.
\<close>

theorem pkce_challenge_is_base64url_of_sha256:
  "oauthChallenge verifier = base64url_nopad (sha256_digest (encode verifier))
   \<and> oauthChallenge ''dBjftJeZ4CVP-mB92K27uhbUJU1p1r_wW1gFWFOEjXk''
       = ''E9Melhoa2OwvFrEMTJguCHaoeK1t8URWbuGJSstw-cM''"
proof
  show "oauthChallenge verifier = base64url_nopad (sha256_digest (encode verifier))"
    by (simp add: oauthChallenge_def sha256_def base64urlencode_refines)
  show "oauthChallenge ''dBjftJeZ4CVP-mB92K27uhbUJU1p1r_wW1gFWFOEjXk''
       = ''E9Melhoa2OwvFrEMTJguCHaoeK1t8URWbuGJSstw-cM''"
    unfolding oauthChallenge_def sha256_def rfc7636_digest
    by (simp add: base64urlencode_def btoa_def b64chars_def replace_all_def strip_trailing_def)
qed

section \<open>Refreshing the access token\<close>

lemma refresh_in_flight:
  "refreshPromise s = Some (p, at) \<Longrightarrow> refreshAccessToken s = (Pending p, s)"
  by (simp add: refreshAccessToken_def)

lemma exec_calls_in_flight:
  "refreshPromise s = Some (p, at) \<Longrightarrow> exec (replicate n Call) s = (replicate n (Pending p), s)"
  by (induction n) (simp_all add: refresh_in_flight)

lemma exec_append:
  "exec (es @ fs) s = (let (rs, s1) = exec es s; (rs', s2) = exec fs s1 in (rs @ rs', s2))"
  by (induction es s rule: exec.induct) (simp_all add: Let_def split: prod.splits)

text \<open>
  Claim C1. While a refresh is in flight, a call of \<open>refreshAccessToken\<close> changes
  nothing, so it sends no message, and returns the pending promise; so do \<open>n\<close> calls in
  a row. When a refresh is started from a state with a refresh token and none in flight,
  and \<open>i\<close> more calls arrive before the reply, \<open>j\<close> more between the reply and the end
  of the storage call, then exactly one message has been sent, all \<open>1 + i + j\<close> callers
  hold the same promise, and it is settled with the one outcome of the reply.
\<close>

theorem single_flight_refresh:
  "(refreshPromise s = Some (p, at) \<longrightarrow>
      refreshAccessToken s = (Pending p, s)
      \<and> exec (replicate n Call) s = (replicate n (Pending p), s))
   \<and> (refreshPromise s = None \<and> refreshToken s \<noteq> '''' \<longrightarrow>
      (case exec (Call # replicate i Call @ [Reply r] @ replicate j Call @ [StorageDone]) s of
         (results, s') \<Rightarrow>
           results = replicate (1 + i + j) (Pending (promises s))
           \<and> sent s' = sent s @ [\<lparr> msg_endpoint = endpoint s, msg_clientId = clientId s,
                                     msg_refreshToken = refreshToken s \<rparr>]
           \<and> settled s' (promises s) = Some (outcome_of r)
           \<and> refreshPromise s' = None))"
proof (intro conjI impI)
  assume a: "refreshPromise s = Some (p, at)"
  show "refreshAccessToken s = (Pending p, s)" by (rule refresh_in_flight[OF a])
  show "exec (replicate n Call) s = (replicate n (Pending p), s)"
    by (rule exec_calls_in_flight[OF a])
next
  assume a: "refreshPromise s = None \<and> refreshToken s \<noteq> ''''"
  let ?p = "promises s"
  let ?m = "\<lparr> msg_endpoint = endpoint s, msg_clientId = clientId s,
               msg_refreshToken = refreshToken s \<rparr>"
  define s1 where "s1 = snd (refreshAccessToken s)"
  have first: "refreshAccessToken s = (Pending ?p, s1)"
    and s1: "refreshPromise s1 = Some (?p, AwaitReply)" "sent s1 = sent s @ [?m]"
    using a by (simp_all add: s1_def refreshAccessToken_def Let_def)
  define s2 where "s2 = receive r s1"
  obtain at2 where s2: "refreshPromise s2 = Some (?p, at2)" "sent s2 = sent s1"
    and at2: "at2 = (case r of Success access refresh \<Rightarrow> AwaitSet access refresh
                     | Failure e \<Rightarrow> AwaitRemove (case e of None \<Rightarrow> ''Failed to refresh token''
                         | Some m \<Rightarrow> if m = '''' then ''Failed to refresh token'' else m)
                     | SendError m \<Rightarrow> AwaitRemove m)"
    using s1 by (cases r) (simp_all add: s2_def receive_def fail_def)
  define s3 where "s3 = storage_done s2"
  have s3: "refreshPromise s3 = None" "sent s3 = sent s2" "settled s3 ?p = Some (outcome_of r)"
    using s2 at2 by (cases r; simp add: s3_def storage_done_def outcome_of_def)+
  have "exec (Call # replicate i Call @ [Reply r] @ replicate j Call @ [StorageDone]) s
      = (replicate (1 + i + j) (Pending ?p), s3)"
    using first exec_calls_in_flight[OF s1(1), of i] exec_calls_in_flight[OF s2(1), of j]
    by (simp add: exec_append s2_def s3_def replicate_add)
  then show "case exec (Call # replicate i Call @ [Reply r] @ replicate j Call @ [StorageDone]) s of
         (results, s') \<Rightarrow>
           results = replicate (1 + i + j) (Pending (promises s))
           \<and> sent s' = sent s @ [?m]
           \<and> settled s' (promises s) = Some (outcome_of r)
           \<and> refreshPromise s' = None"
    using s3 s2 s1 by simp
qed

text \<open>
  A context with a refresh awaiting its reply, called three times; and a context that
  starts a refresh, is called twice more before the successful reply and once after it.
\<close>

theorem single_flight_refresh_witness:
  "refreshPromise
     \<lparr> endpoint = ''https://app.solidtime.io'', clientId = ''c'', accessToken = ''a0'',
       refreshToken = ''r0'', storage = [''access_token'' \<mapsto> ''a0'', ''refresh_token'' \<mapsto> ''r0''],
       refreshPromise = Some (0, AwaitReply), settled = Map.empty,
       sent = [\<lparr> msg_endpoint = ''https://app.solidtime.io'', msg_clientId = ''c'',
                 msg_refreshToken = ''r0'' \<rparr>],
       promises = 1 \<rparr> = Some (0, AwaitReply)
   \<and> fst (exec [Call, Call, Call]
     \<lparr> endpoint = ''https://app.solidtime.io'', clientId = ''c'', accessToken = ''a0'',
       refreshToken = ''r0'', storage = [''access_token'' \<mapsto> ''a0'', ''refresh_token'' \<mapsto> ''r0''],
       refreshPromise = Some (0, AwaitReply), settled = Map.empty,
       sent = [\<lparr> msg_endpoint = ''https://app.solidtime.io'', msg_clientId = ''c'',
                 msg_refreshToken = ''r0'' \<rparr>],
       promises = 1 \<rparr>) = [Pending 0, Pending 0, Pending 0]
   \<and> length (sent (snd (exec [Call, Call, Call]
     \<lparr> endpoint = ''https://app.solidtime.io'', clientId = ''c'', accessToken = ''a0'',
       refreshToken = ''r0'', storage = [''access_token'' \<mapsto> ''a0'', ''refresh_token'' \<mapsto> ''r0''],
       refreshPromise = Some (0, AwaitReply), settled = Map.empty,
       sent = [\<lparr> msg_endpoint = ''https://app.solidtime.io'', msg_clientId = ''c'',
                 msg_refreshToken = ''r0'' \<rparr>],
       promises = 1 \<rparr>))) = 1
   \<and> fst (exec [Call, Call, Call, Reply (Success ''a1'' ''r1''), Call, StorageDone]
     \<lparr> endpoint = ''https://app.solidtime.io'', clientId = ''c'', accessToken = ''a0'',
       refreshToken = ''r0'', storage = [''access_token'' \<mapsto> ''a0'', ''refresh_token'' \<mapsto> ''r0''],
       refreshPromise = None, settled = Map.empty, sent = [], promises = 0 \<rparr>)
     = [Pending 0, Pending 0, Pending 0, Pending 0]
   \<and> length (sent (snd (exec [Call, Call, Call, Reply (Success ''a1'' ''r1''), Call, StorageDone]
     \<lparr> endpoint = ''https://app.solidtime.io'', clientId = ''c'', accessToken = ''a0'',
       refreshToken = ''r0'', storage = [''access_token'' \<mapsto> ''a0'', ''refresh_token'' \<mapsto> ''r0''],
       refreshPromise = None, settled = Map.empty, sent = [], promises = 0 \<rparr>))) = 1
   \<and> settled (snd (exec [Call, Call, Call, Reply (Success ''a1'' ''r1''), Call, StorageDone]
     \<lparr> endpoint = ''https://app.solidtime.io'', clientId = ''c'', accessToken = ''a0'',
       refreshToken = ''r0'', storage = [''access_token'' \<mapsto> ''a0'', ''refresh_token'' \<mapsto> ''r0''],
       refreshPromise = None, settled = Map.empty, sent = [], promises = 0 \<rparr>)) 0
     = Some Resolved"
proof -
  let ?m = "\<lparr> msg_endpoint = ''https://app.solidtime.io'', msg_clientId = ''c'',
                 msg_refreshToken = ''r0'' \<rparr>"
  let ?busy = "\<lparr> endpoint = ''https://app.solidtime.io'', clientId = ''c'', accessToken = ''a0'',
       refreshToken = ''r0'', storage = [''access_token'' \<mapsto> ''a0'', ''refresh_token'' \<mapsto> ''r0''],
       refreshPromise = Some (0, AwaitReply), settled = Map.empty, sent = [?m], promises = 1 \<rparr>"
  let ?idle = "\<lparr> endpoint = ''https://app.solidtime.io'', clientId = ''c'', accessToken = ''a0'',
       refreshToken = ''r0'', storage = [''access_token'' \<mapsto> ''a0'', ''refresh_token'' \<mapsto> ''r0''],
       refreshPromise = None, settled = Map.empty, sent = [], promises = 0 \<rparr>"
  have three: "replicate 3 Call = [Call, Call, Call]" "replicate 2 Call = [Call, Call]"
    "replicate 1 Call = [Call]"
    "replicate (1 + 2 + 1) (Pending (0::nat)) = [Pending 0, Pending 0, Pending 0, Pending 0]"
    "replicate 3 (Pending (0::nat)) = [Pending 0, Pending 0, Pending 0]"
    by (simp_all add: numeral_eq_Suc)
  have busy: "refreshPromise ?busy = Some (0, AwaitReply)" by simp
  have idle: "refreshPromise ?idle = None \<and> refreshToken ?idle \<noteq> ''''" by simp
  from single_flight_refresh[where s = ?busy and p = 0 and at = AwaitReply and n = 3] busy
  have 1: "exec [Call, Call, Call] ?busy = ([Pending 0, Pending 0, Pending 0], ?busy)"
    by (simp only: three)
  note 2 = single_flight_refresh[where s = ?idle and i = 2 and r = "Success ''a1'' ''r1''" and j = 1,
      THEN conjunct2, THEN mp, OF idle]
  from 1 2 busy show ?thesis
    by (simp add: three outcome_of_def split: prod.splits)
qed

section \<open>Refreshing without a refresh token\<close>

text \<open>
  Claim C2. With no refresh in flight and an empty refresh token, \<open>refreshAccessToken\<close>
  rejects with the error \<^verbatim>\<open>No refresh token available - user logged out\<close>, leaves
  both cells empty, removes both keys from the durable store and no other key, and sends
  no message.
\<close>

theorem refresh_without_refresh_token:
  "refreshPromise s = None \<and> refreshToken s = '''' \<longrightarrow>
     (case refreshAccessToken s of
        (result, s') \<Rightarrow>
          result = Throws ''No refresh token available - user logged out''
          \<and> accessToken s' = '''' \<and> refreshToken s' = ''''
          \<and> storage s' ''access_token'' = None \<and> storage s' ''refresh_token'' = None
          \<and> (\<forall>k. k \<noteq> ''access_token'' \<and> k \<noteq> ''refresh_token'' \<longrightarrow> storage s' k = storage s k)
          \<and> sent s' = sent s
          \<and> refreshPromise s' = None)"
  by (simp add: refreshAccessToken_def remove_tokens_def)

text \<open>A context whose refresh token is gone while an access token is still around.\<close>

theorem refresh_without_refresh_token_witness:
  "refreshPromise
     \<lparr> endpoint = ''https://app.solidtime.io'', clientId = ''c'', accessToken = ''a0'',
       refreshToken = '''', storage = [''access_token'' \<mapsto> ''a0'', ''instance_endpoint'' \<mapsto> ''e''],
       refreshPromise = None, settled = Map.empty, sent = [], promises = 0 \<rparr> = None
   \<and> fst (refreshAccessToken
     \<lparr> endpoint = ''https://app.solidtime.io'', clientId = ''c'', accessToken = ''a0'',
       refreshToken = '''', storage = [''access_token'' \<mapsto> ''a0'', ''instance_endpoint'' \<mapsto> ''e''],
       refreshPromise = None, settled = Map.empty, sent = [], promises = 0 \<rparr>)
     = Throws ''No refresh token available - user logged out''
   \<and> accessToken (snd (refreshAccessToken
     \<lparr> endpoint = ''https://app.solidtime.io'', clientId = ''c'', accessToken = ''a0'',
       refreshToken = '''', storage = [''access_token'' \<mapsto> ''a0'', ''instance_endpoint'' \<mapsto> ''e''],
       refreshPromise = None, settled = Map.empty, sent = [], promises = 0 \<rparr>)) = ''''
   \<and> storage (snd (refreshAccessToken
     \<lparr> endpoint = ''https://app.solidtime.io'', clientId = ''c'', accessToken = ''a0'',
       refreshToken = '''', storage = [''access_token'' \<mapsto> ''a0'', ''instance_endpoint'' \<mapsto> ''e''],
       refreshPromise = None, settled = Map.empty, sent = [], promises = 0 \<rparr>)) ''access_token'' = None
   \<and> storage (snd (refreshAccessToken
     \<lparr> endpoint = ''https://app.solidtime.io'', clientId = ''c'', accessToken = ''a0'',
       refreshToken = '''', storage = [''access_token'' \<mapsto> ''a0'', ''instance_endpoint'' \<mapsto> ''e''],
       refreshPromise = None, settled = Map.empty, sent = [], promises = 0 \<rparr>)) ''instance_endpoint''
     = Some ''e''
   \<and> sent (snd (refreshAccessToken
     \<lparr> endpoint = ''https://app.solidtime.io'', clientId = ''c'', accessToken = ''a0'',
       refreshToken = '''', storage = [''access_token'' \<mapsto> ''a0'', ''instance_endpoint'' \<mapsto> ''e''],
       refreshPromise = None, settled = Map.empty, sent = [], promises = 0 \<rparr>)) = []"
  using refresh_without_refresh_token
    [of "\<lparr> endpoint = ''https://app.solidtime.io'', clientId = ''c'', accessToken = ''a0'',
       refreshToken = '''', storage = [''access_token'' \<mapsto> ''a0'', ''instance_endpoint'' \<mapsto> ''e''],
       refreshPromise = None, settled = Map.empty, sent = [], promises = 0 \<rparr>"]
  by (simp split: prod.splits)

section \<open>One refresh and one retry for a 401\<close>

lemma axios_marked:
  assumes "retry config"
  shows "axios w config c =
     (if ok (respond w (http_log c) config) then Fulfilled (respond w (http_log c) config)
      else RequestFailed (respond w (http_log c) config) config,
      c\<lparr> http_log := http_log c @ [config] \<rparr>)"
  using assms by (subst axios.simps) (simp add: Let_def)

lemma await_refresh_sent:
  "length (sent (snd (await_refresh r s))) \<le> Suc (length (sent s))"
  by (auto simp: await_refresh_def refreshAccessToken_def receive_def storage_done_def fail_def
      Let_def split: option.splits suspended.splits reply.splits prod.splits)

lemma await_refresh_settles: "\<exists>out. fst (await_refresh r s) = Some out"
  by (auto simp: await_refresh_def refreshAccessToken_def receive_def storage_done_def fail_def
      Let_def split: option.splits suspended.splits reply.splits prod.splits)

lemma status_401_not_ok: "status response = Some 401 \<Longrightarrow> \<not> ok response"
  by (cases response) (simp_all add: status_def ok_def)

text \<open>
  Claim C3. A request that is not yet marked and is answered with 401 calls the refresh.
  If the refresh resolves, the request is marked and sent once more with the new access
  token in its header, and whatever answers that second request goes to the caller: the
  response when it has a success status, a failure otherwise, also when it is another
  401. If the refresh rejects, its error goes to the caller and nothing is sent again.
  A marked request is never retried. No request is sent more than twice, no more than
  one refresh message is sent for it, and the caller always gets an answer.
\<close>

theorem unauthorized_refresh_and_retry_once:
  "(\<not> retry config \<and> status (respond w (http_log c) config) = Some 401
      \<and> await_refresh (background w) (store c) = (Some Resolved, st) \<longrightarrow>
      axios w config c =
        (let again = config\<lparr> retry := True, authorization := ''Bearer '' @ accessToken st \<rparr>;
             response = respond w (http_log c @ [config]) again
         in (if ok response then Fulfilled response else RequestFailed response again,
             \<lparr> store = st, http_log = http_log c @ [config, again] \<rparr>)))
   \<and> (\<not> retry config \<and> status (respond w (http_log c) config) = Some 401
      \<and> await_refresh (background w) (store c) = (Some (Rejected e), st) \<longrightarrow>
      axios w config c = (RefreshFailed e, \<lparr> store = st, http_log = http_log c @ [config] \<rparr>))
   \<and> (retry config \<and> \<not> ok (respond w (http_log c) config) \<longrightarrow>
      axios w config c =
        (RequestFailed (respond w (http_log c) config) config,
         \<lparr> store = store c, http_log = http_log c @ [config] \<rparr>))
   \<and> length (http_log (snd (axios w config c))) \<le> length (http_log c) + 2
   \<and> length (sent (store (snd (axios w config c)))) \<le> length (sent (store c)) + 1
   \<and> fst (axios w config c) \<noteq> Unsettled"
proof (intro conjI impI)
  assume a: "\<not> retry config \<and> status (respond w (http_log c) config) = Some 401
      \<and> await_refresh (background w) (store c) = (Some Resolved, st)"
  let ?again = "config\<lparr> retry := True, authorization := ''Bearer '' @ accessToken st \<rparr>"
  have "axios w config c = axios w ?again (c\<lparr> http_log := http_log c @ [config], store := st \<rparr>)"
    using a status_401_not_ok[of "respond w (http_log c) config"]
    by (subst axios.simps) (simp add: Let_def)
  also have "\<dots> = (if ok (respond w (http_log c @ [config]) ?again)
                    then Fulfilled (respond w (http_log c @ [config]) ?again)
                    else RequestFailed (respond w (http_log c @ [config]) ?again) ?again,
                    \<lparr> store = st, http_log = http_log c @ [config, ?again] \<rparr>)"
    by (subst axios_marked) simp_all
  finally show "axios w config c =
        (let again = config\<lparr> retry := True, authorization := ''Bearer '' @ accessToken st \<rparr>;
             response = respond w (http_log c @ [config]) again
         in (if ok response then Fulfilled response else RequestFailed response again,
             \<lparr> store = st, http_log = http_log c @ [config, again] \<rparr>))"
    by (simp add: Let_def)
next
  assume a: "\<not> retry config \<and> status (respond w (http_log c) config) = Some 401
      \<and> await_refresh (background w) (store c) = (Some (Rejected e), st)"
  then show "axios w config c = (RefreshFailed e, \<lparr> store = st, http_log = http_log c @ [config] \<rparr>)"
    using status_401_not_ok[of "respond w (http_log c) config"]
    by (subst axios.simps) (simp add: Let_def)
next
  assume "retry config \<and> \<not> ok (respond w (http_log c) config)"
  then show "axios w config c =
        (RequestFailed (respond w (http_log c) config) config,
         \<lparr> store = store c, http_log = http_log c @ [config] \<rparr>)"
    by (simp add: axios_marked)
next
  show "length (http_log (snd (axios w config c))) \<le> length (http_log c) + 2"
    by (subst axios.simps) (auto simp: Let_def axios_marked split: option.splits outcome.splits prod.splits)
next
  have "length (sent (snd (await_refresh (background w) (store c)))) \<le> Suc (length (sent (store c)))"
    by (rule await_refresh_sent)
  then show "length (sent (store (snd (axios w config c)))) \<le> length (sent (store c)) + 1"
    by (subst axios.simps) (auto simp: Let_def axios_marked split: option.splits outcome.splits prod.splits)
next
  obtain out where "fst (await_refresh (background w) (store c)) = Some out"
    using await_refresh_settles by blast
  then show "fst (axios w config c) \<noteq> Unsettled"
    by (subst axios.simps) (auto simp: Let_def axios_marked split: option.splits outcome.splits prod.splits)
qed

text \<open>
  A logged-in context whose access token \<^verbatim>\<open>a0\<close> has expired. The server answers 401 to
  the old token. In the first world the refresh succeeds and the server accepts the new
  token; in the second the server rejects the new token too; in the third the refresh
  fails. A request that is already marked is not retried.
\<close>

theorem unauthorized_refresh_and_retry_once_witness:
  "(let c0 = \<lparr> store = \<lparr> endpoint = ''https://app.solidtime.io'', clientId = ''c'',
                 accessToken = ''a0'', refreshToken = ''r0'',
                 storage = [''access_token'' \<mapsto> ''a0'', ''refresh_token'' \<mapsto> ''r0''],
                 refreshPromise = None, settled = Map.empty, sent = [], promises = 0 \<rparr>,
               http_log = [] \<rparr>;
        config = \<lparr> target = ''/api/v1/users/me/time-entries/active'',
                   authorization = ''Bearer a0'', retry = False \<rparr>;
        renewed = \<lparr> respond = (\<lambda>log q. if authorization q = ''Bearer a1'' then Http 200 ''{}''
                                        else Http 401 ''''),
                    background = Success ''a1'' ''r1'' \<rparr>;
        revoked = \<lparr> respond = (\<lambda>log q. Http 401 ''''), background = Success ''a1'' ''r1'' \<rparr>;
        expired = \<lparr> respond = (\<lambda>log q. Http 401 ''''), background = Failure None \<rparr>
    in fst (axios renewed config c0) = Fulfilled (Http 200 ''{}'')
       \<and> http_log (snd (axios renewed config c0))
           = [config, config\<lparr> retry := True, authorization := ''Bearer a1'' \<rparr>]
       \<and> fst (axios revoked config c0)
           = RequestFailed (Http 401 '''') (config\<lparr> retry := True, authorization := ''Bearer a1'' \<rparr>)
       \<and> http_log (snd (axios revoked config c0))
           = [config, config\<lparr> retry := True, authorization := ''Bearer a1'' \<rparr>]
       \<and> length (sent (store (snd (axios revoked config c0)))) = 1
       \<and> fst (axios expired config c0) = RefreshFailed ''Failed to refresh token''
       \<and> http_log (snd (axios expired config c0)) = [config]
       \<and> fst (axios revoked (config\<lparr> retry := True \<rparr>) c0)
           = RequestFailed (Http 401 '''') (config\<lparr> retry := True \<rparr>)
       \<and> http_log (snd (axios revoked (config\<lparr> retry := True \<rparr>) c0)) = [config\<lparr> retry := True \<rparr>])"
proof -
  let ?st = "\<lparr> endpoint = ''https://app.solidtime.io'', clientId = ''c'',
                 accessToken = ''a0'', refreshToken = ''r0'',
                 storage = [''access_token'' \<mapsto> ''a0'', ''refresh_token'' \<mapsto> ''r0''],
                 refreshPromise = None, settled = Map.empty, sent = [], promises = 0 \<rparr>"
  let ?c0 = "\<lparr> store = ?st, http_log = [] \<rparr>"
  let ?config = "\<lparr> target = ''/api/v1/users/me/time-entries/active'',
                   authorization = ''Bearer a0'', retry = False \<rparr>"
  let ?renewed = "\<lparr> respond = (\<lambda>log q. if authorization q = ''Bearer a1'' then Http 200 ''{}''
                                        else Http 401 ''''),
                    background = Success ''a1'' ''r1'' \<rparr>"
  let ?revoked = "\<lparr> respond = (\<lambda>log q. Http 401 ''''), background = Success ''a1'' ''r1'' \<rparr>"
  let ?expired = "\<lparr> respond = (\<lambda>log q. Http 401 ''''), background = Failure None \<rparr>"
  let ?st1 = "?st\<lparr> storage := [''access_token'' \<mapsto> ''a1'', ''refresh_token'' \<mapsto> ''r1''],
                  accessToken := ''a1'', refreshToken := ''r1'',
                  settled := [0 \<mapsto> Resolved],
                  sent := [\<lparr> msg_endpoint = ''https://app.solidtime.io'', msg_clientId = ''c'',
                            msg_refreshToken = ''r0'' \<rparr>],
                  promises := 1 \<rparr>"
  let ?st2 = "?st\<lparr> storage := remove_tokens [''access_token'' \<mapsto> ''a0'', ''refresh_token'' \<mapsto> ''r0''],
                  accessToken := '''', refreshToken := '''',
                  settled := [0 \<mapsto> Rejected ''Failed to refresh token''],
                  sent := [\<lparr> msg_endpoint = ''https://app.solidtime.io'', msg_clientId = ''c'',
                            msg_refreshToken = ''r0'' \<rparr>],
                  promises := 1 \<rparr>"
  have ok_refresh: "await_refresh (Success ''a1'' ''r1'') ?st = (Some Resolved, ?st1)"
    by (simp add: await_refresh_def refreshAccessToken_def receive_def storage_done_def Let_def)
  have bad_refresh: "await_refresh (Failure None) ?st = (Some (Rejected ''Failed to refresh token''), ?st2)"
    by (simp add: await_refresh_def refreshAccessToken_def receive_def storage_done_def fail_def Let_def)
  note a = unauthorized_refresh_and_retry_once
      [where w = ?renewed and config = ?config and c = ?c0 and st = ?st1]
  note b = unauthorized_refresh_and_retry_once
      [where w = ?revoked and config = ?config and c = ?c0 and st = ?st1]
  note c = unauthorized_refresh_and_retry_once
      [where w = ?expired and config = ?config and c = ?c0 and st = ?st2
         and e = "''Failed to refresh token''"]
  note d = unauthorized_refresh_and_retry_once
      [where w = ?revoked and config = "?config\<lparr> retry := True \<rparr>" and c = ?c0]
  have 1: "axios ?renewed ?config ?c0 =
      (Fulfilled (Http 200 ''{}''),
       \<lparr> store = ?st1, http_log = [?config, ?config\<lparr> retry := True, authorization := ''Bearer a1'' \<rparr>] \<rparr>)"
    using a ok_refresh by (simp add: status_def ok_def Let_def)
  have 2: "axios ?revoked ?config ?c0 =
      (RequestFailed (Http 401 '''') (?config\<lparr> retry := True, authorization := ''Bearer a1'' \<rparr>),
       \<lparr> store = ?st1, http_log = [?config, ?config\<lparr> retry := True, authorization := ''Bearer a1'' \<rparr>] \<rparr>)"
    using b ok_refresh by (simp add: status_def ok_def Let_def)
  have 3: "axios ?expired ?config ?c0 =
      (RefreshFailed ''Failed to refresh token'', \<lparr> store = ?st2, http_log = [?config] \<rparr>)"
    using c bad_refresh by (simp add: status_def ok_def Let_def)
  have 4: "axios ?revoked (?config\<lparr> retry := True \<rparr>) ?c0 =
      (RequestFailed (Http 401 '''') (?config\<lparr> retry := True \<rparr>),
       \<lparr> store = ?st, http_log = [?config\<lparr> retry := True \<rparr>] \<rparr>)"
    using d by (simp add: status_def ok_def Let_def)
  show ?thesis
    unfolding Let_def 1 2 3 4 by simp
qed

section \<open>A failed login attempt stores nothing\<close>

lemma callback_failure_keeps_storage:
  assumes "launchWebAuthFlow_callback pf e c r lastError responseUrl s = (FlowFailure m, s')"
  shows "local_storage s' = local_storage s"
  using assms
  by (auto simp: launchWebAuthFlow_callback_def Let_def
      split: option.splits sum.splits if_splits token_response.splits)

text \<open>
  Claim C4. When the redirect URL parses and its \<^verbatim>\<open>state\<close> parameter is not the stored
  \<open>oauthState\<close>, or its \<^verbatim>\<open>code\<close> parameter is absent or empty, the callback answers with a
  failure, makes no request to the token endpoint and leaves the durable store as it
  was. More generally, whenever the callback answers with a failure the durable store
  is as it was.
\<close>

theorem oauth_state_mismatch_stores_nothing:
  "(searchParams pf url = Inr params \<and> url \<noteq> ''''
      \<and> (params ''state'' \<noteq> Some (oauthState s) \<or> params ''code'' = None
          \<or> params ''code'' = Some '''') \<longrightarrow>
      (\<exists>m. fst (launchWebAuthFlow_callback pf e c r None (Some url) s) = FlowFailure m)
      \<and> local_storage (snd (launchWebAuthFlow_callback pf e c r None (Some url) s))
          = local_storage s
      \<and> token_requests (snd (launchWebAuthFlow_callback pf e c r None (Some url) s))
          = token_requests s)
   \<and> (fst (launchWebAuthFlow_callback pf e c r lastError responseUrl s) = FlowFailure m \<longrightarrow>
      local_storage (snd (launchWebAuthFlow_callback pf e c r lastError responseUrl s))
        = local_storage s)"
proof (intro conjI impI)
  assume a: "searchParams pf url = Inr params \<and> url \<noteq> ''''
      \<and> (params ''state'' \<noteq> Some (oauthState s) \<or> params ''code'' = None
          \<or> params ''code'' = Some '''')"
  then have "\<exists>m. launchWebAuthFlow_callback pf e c r None (Some url) s = (FlowFailure m, s)"
    by (auto simp: launchWebAuthFlow_callback_def Let_def truthy_def)
  then obtain m where m: "launchWebAuthFlow_callback pf e c r None (Some url) s = (FlowFailure m, s)"
    by blast
  show "\<exists>m. fst (launchWebAuthFlow_callback pf e c r None (Some url) s) = FlowFailure m"
    using m by simp
  show "local_storage (snd (launchWebAuthFlow_callback pf e c r None (Some url) s)) = local_storage s"
    using m by simp
  show "token_requests (snd (launchWebAuthFlow_callback pf e c r None (Some url) s)) = token_requests s"
    using m by simp
next
  assume "fst (launchWebAuthFlow_callback pf e c r lastError responseUrl s) = FlowFailure m"
  then show "local_storage (snd (launchWebAuthFlow_callback pf e c r lastError responseUrl s))
        = local_storage s"
    using callback_failure_keeps_storage[of pf e c r lastError responseUrl s m
        "snd (launchWebAuthFlow_callback pf e c r lastError responseUrl s)"]
    by (metis prod.collapse)
qed

text \<open>
  A redirect that carries a code and a state other than the one generated, against a
  token endpoint that would hand out tokens: the answer is the failure of the state
  check, the store stays empty and the endpoint is not asked.
\<close>

theorem oauth_state_mismatch_stores_nothing_witness:
  "(let pf = \<lparr> searchParams = (\<lambda>u. Inr [''code'' \<mapsto> ''c1'', ''state'' \<mapsto> ''forged'']),
               token_endpoint = (\<lambda>q. TokenBody ''a1'' ''r1'') \<rparr>;
        s = \<lparr> oauthState = ''generated'', oauthVerifier = ''v'',
              local_storage = Map.empty, token_requests = [] \<rparr>;
        answer = launchWebAuthFlow_callback pf ''https://app.solidtime.io'' ''c''
                   ''https://ext.chromiumapp.org/'' None
                   (Some ''https://ext.chromiumapp.org/?code=c1&state=forged'') s
    in fst answer = FlowFailure ''Invalid state or missing code''
       \<and> local_storage (snd answer) ''access_token'' = None
       \<and> local_storage (snd answer) ''refresh_token'' = None
       \<and> token_requests (snd answer) = [])"
  using oauth_state_mismatch_stores_nothing
    [where pf = "\<lparr> searchParams = (\<lambda>u. Inr [''code'' \<mapsto> ''c1'', ''state'' \<mapsto> ''forged'']),
               token_endpoint = (\<lambda>q. TokenBody ''a1'' ''r1'') \<rparr>"
       and url = "''https://ext.chromiumapp.org/?code=c1&state=forged''"
       and params = "[''code'' \<mapsto> ''c1'', ''state'' \<mapsto> ''forged'']"
       and s = "\<lparr> oauthState = ''generated'', oauthVerifier = ''v'',
              local_storage = Map.empty, token_requests = [] \<rparr>"
       and e = "''https://app.solidtime.io''" and c = "''c''"
       and r = "''https://ext.chromiumapp.org/''"]
  by (simp add: Let_def launchWebAuthFlow_callback_def truthy_def)

section \<open>How many controls a tab can hold\<close>

lemma count_list_remove1: "count_list (remove1 i xs) i = count_list xs i - 1"
  by (induction xs) auto

lemma count_list_filter_out: "count_list (filter (\<lambda>x. x \<noteq> i) xs) i = 0"
  by (induction xs) auto

text \<open>
  Without an access token no call is ever suspended between its check and its append,
  and then the check does keep the control unique, whatever happens in the tab.
\<close>

lemma logged_out_step:
  assumes "tab_accessToken t = ''''" "suspended_injections t = 0" "controls i t \<le> 1"
  shows "tab_accessToken (dom_step i e t) = '''' \<and> suspended_injections (dom_step i e t) = 0
         \<and> controls i (dom_step i e t) \<le> 1"
proof (cases e)
  case (Inject skip)
  show ?thesis
  proof (cases "i \<in> set (elements t)")
    case True
    with assms Inject show ?thesis
      by (auto simp: inject_begin_def getElementById_def append_control_def controls_def
          count_list_remove1 Let_def)
  next
    case False
    then have "count_list (elements t) i = 0" by (simp add: count_list_0_iff)
    with assms Inject False show ?thesis
      by (auto simp: inject_begin_def getElementById_def append_control_def controls_def Let_def)
  qed
next
  case Resume
  with assms show ?thesis by (simp add: inject_resume_def)
next
  case Remove
  with assms show ?thesis by (simp add: remove_control_def controls_def count_list_remove1)
next
  case HostRerender
  with assms show ?thesis by (simp add: controls_def count_list_filter_out)
qed

lemma logged_out_unique:
  assumes "tab_accessToken t = ''''" "suspended_injections t = 0" "controls i t \<le> 1"
  shows "controls i (dom_run i es t) \<le> 1"
proof -
  have "tab_accessToken (dom_run i es t) = '''' \<and> suspended_injections (dom_run i es t) = 0
         \<and> controls i (dom_run i es t) \<le> 1"
    using assms
  proof (induction es arbitrary: t)
    case Nil
    then show ?case by (simp add: dom_run_def)
  next
    case (Cons e es)
    from logged_out_step[OF Cons.prems, of e]
    have "tab_accessToken (dom_run i es (dom_step i e t)) = ''''
        \<and> suspended_injections (dom_run i es (dom_step i e t)) = 0
        \<and> controls i (dom_run i es (dom_step i e t)) \<le> 1"
      by (intro Cons.IH) simp_all
    then show ?case by (simp add: dom_run_def)
  qed
  then show ?thesis by simp
qed

text \<open>
  Claim C8 asks for at most one control in the document after every sequence of events.
  With an access token the injection function is suspended between its existence check
  and its append, and two calls that overlap there both append. On a Jira issue page
  without a control, two calls with the check (two runs of \<open>handlePageLoad\<close>, as on a
  \<^verbatim>\<open>popstate\<close> followed by the URL observer) leave two elements with the wrapper id. On a
  page with one control, the replacing call of the click handler followed by the
  watchdog's call, which finds the control removed, leaves two as well.
\<close>

theorem overlapping_injections_duplicate_control:
  "controls BUTTON_WRAPPER_ID
     (dom_run BUTTON_WRAPPER_ID [Inject False, Inject False, Resume, Resume]
        \<lparr> elements = [], tab_accessToken = ''a0'', suspended_injections = 0 \<rparr>) = 2
   \<and> controls BUTTON_WRAPPER_ID
     (dom_run BUTTON_WRAPPER_ID [Inject True, Inject False, Resume, Resume]
        \<lparr> elements = [BUTTON_WRAPPER_ID], tab_accessToken = ''a0'', suspended_injections = 0 \<rparr>) = 2"
  by (simp add: dom_run_def inject_begin_def inject_resume_def getElementById_def
      append_control_def controls_def Let_def)

section \<open>Stopping and starting again\<close>

lemma currentOrganizationId_cong:
  "currentMembershipId s = currentMembershipId s' \<Longrightarrow> memberships s = memberships s'
     \<Longrightarrow> currentOrganizationId s = currentOrganizationId s'"
  by (simp add: currentOrganizationId_def)

text \<open>
  When \<open>start()\<close> is called in the same task as \<open>stop()\<close>, the create mutation's
  \<^verbatim>\<open>onMutate\<close> passes its one \<^verbatim>\<open>await\<close> before the stop mutation's has passed its second:
  the optimistic entry is written first and the empty entry over it.
\<close>

lemma immediate_start_cache_ends_empty:
  assumes "suspended_onMutate s = []"
  shows "query_currentTimeEntry
           (resume u3 (resume u2 (resume u1 (startTimer t2 (stopTimer endTime t1 s)))))
         = Some (Bare emptyTimeEntry)"
  using assms by (simp add: stopTimer_def startTimer_def resume_def Let_def)





end
